theory Spec2Isabelle
  imports Main "HOL-Library.List_Lexorder" "HOL-Library.Char_ord"
begin

section \<open>Instants and their text forms\<close>

text \<open>
  A Python \<open>datetime\<close> (naive, as \<open>datetime.utcnow()\<close> returns it) is an instant with
  microsecond resolution between 0001-01-01T00:00:00 and 9999-12-31T23:59:59.999999. It
  is modelled by the number of microseconds since \<open>datetime.min\<close>; \<open>MAXUS\<close> is the first
  count that is no longer a datetime.

  The jobs table keeps every instant as TEXT. Each write in \<open>storage.py\<close> goes through
  \<open>isoformat()\<close> and each read through \<open>fromisoformat()\<close>, so a row of the model keeps the
  instant itself, and every comparison that SQLite makes on the column is made on the
  text that \<open>isoformat\<close> gives (byte-wise, shorter prefix first: the order of
  \<open>string\<close> with \<open>Char_ord\<close> and \<open>List_Lexorder\<close>).
\<close>

type_synonym datetime = nat

definition MAXUS :: nat where
  "MAXUS = 3652059 * 86400 * 1000000"

definition digit :: "nat \<Rightarrow> char" where
  "digit d = ''0123456789'' ! (d mod 10)"

definition pad2 :: "nat \<Rightarrow> string" where
  "pad2 n = [digit (n div 10), digit n]"

definition pad4 :: "nat \<Rightarrow> string" where
  "pad4 n = [digit (n div 1000), digit (n div 100), digit (n div 10), digit n]"

definition pad6 :: "nat \<Rightarrow> string" where
  "pad6 n = [digit (n div 100000), digit (n div 10000), digit (n div 1000),
             digit (n div 100), digit (n div 10), digit n]"

text \<open>The proleptic Gregorian calendar: day number (0 is 0001-01-01) to year, month, day.\<close>

fun month_day :: "nat list \<Rightarrow> nat \<Rightarrow> nat \<Rightarrow> nat \<times> nat" where
  "month_day [] m n = (m, n + 1)"
| "month_day (l # ls) m n = (if n < l then (m, n + 1) else month_day ls (m + 1) (n - l))"

definition days_in_months :: "bool \<Rightarrow> nat list" where
  "days_in_months leap = [31, if leap then 29 else 28, 31, 30, 31, 30, 31, 31, 30, 31, 30]"

definition ord2ymd :: "nat \<Rightarrow> nat \<times> nat \<times> nat" where
  "ord2ymd n0 =
     (let n400 = n0 div 146097; n = n0 mod 146097;
          n100 = n div 36524; n = n mod 36524;
          n4 = n div 1461; n = n mod 1461;
          n1 = n div 365; n = n mod 365;
          year = n400 * 400 + n100 * 100 + n4 * 4 + n1 + 1
      in if n1 = 4 \<or> n100 = 4 then (year - 1, 12, 31)
         else (let leap = (n1 = 3 \<and> (n4 \<noteq> 24 \<or> n100 = 3))
               in case month_day (days_in_months leap) 1 n of (m, d) \<Rightarrow> (year, m, d)))"

text \<open>
  What \<open>ord2ymd\<close> computes, in the terms of the calendar: the year \<open>y\<close> whose first day
  has number \<open>days_before_year y\<close>, and the day within that year.
\<close>

definition leap_year :: "nat \<Rightarrow> bool" where
  "leap_year y = (y mod 4 = 0 \<and> (y mod 100 \<noteq> 0 \<or> y mod 400 = 0))"

definition days_before_year :: "nat \<Rightarrow> nat" where
  "days_before_year y = 365 * (y - 1) + (y - 1) div 4 - (y - 1) div 100 + (y - 1) div 400"

definition year_length :: "nat \<Rightarrow> nat" where
  "year_length y = (if leap_year y then 366 else 365)"

definition date_text :: "datetime \<Rightarrow> string" where
  "date_text t = (case ord2ymd (t div 86400000000) of
      (y, m, d) \<Rightarrow> pad4 y @ ''-'' @ pad2 m @ ''-'' @ pad2 d)"

definition time_text :: "datetime \<Rightarrow> string" where
  "time_text t = (let s = t div 1000000 mod 86400
      in pad2 (s div 3600) @ '':'' @ pad2 (s div 60 mod 60) @ '':'' @ pad2 (s mod 60))"

text \<open>
  \<open>datetime.isoformat()\<close>: \<open>YYYY-MM-DDTHH:MM:SS\<close>, followed by \<open>.ffffff\<close> unless the
  microsecond field is 0.
\<close>

definition isoformat :: "datetime \<Rightarrow> string" where
  "isoformat t = date_text t @ ''T'' @ time_text t @
     (if t mod 1000000 = 0 then [] else ''.'' @ pad6 (t mod 1000000))"

text \<open>
  SQLite's \<open>datetime(...)\<close>: \<open>YYYY-MM-DD HH:MM:SS\<close>, a space between date and time and no
  fraction. \<open>stale_threshold sql_now\<close> is \<open>datetime('now', '-5 minutes')\<close> when SQLite's
  clock reads \<open>sql_now\<close> (a clock reading lies well after the first five minutes of
  year 1, where the subtraction on \<open>nat\<close> would stop at 0).
\<close>

definition sqlite_datetime :: "datetime \<Rightarrow> string" where
  "sqlite_datetime t = date_text t @ '' '' @ time_text t"

definition stale_threshold :: "datetime \<Rightarrow> string" where
  "stale_threshold sql_now = sqlite_datetime (sql_now - 5 * 60 * 1000000)"

section \<open>models.py\<close>

datatype JobState = PENDING | PROCESSING | COMPLETED | FAILED | DEAD

fun state_value :: "JobState \<Rightarrow> string" where
  "state_value PENDING = ''pending''"
| "state_value PROCESSING = ''processing''"
| "state_value COMPLETED = ''completed''"
| "state_value FAILED = ''failed''"
| "state_value DEAD = ''dead''"

text \<open>
  The \<open>Job\<close> object of \<open>models.py\<close>; its field \<open>id\<close> is \<open>job_id\<close> here, a \<open>str\<close> as the
  class declares it (the column \<open>id TEXT PRIMARY KEY\<close> would also take a null, which this
  type leaves out).
\<close>

record Job =
  job_id :: string
  command :: string
  state :: JobState
  attempts :: int
  max_retries :: int
  created_at :: datetime
  updated_at :: datetime
  next_retry_at :: "datetime option"
  error_message :: "string option"

section \<open>Exceptions\<close>

text \<open>The Python exceptions that the modelled code raises.\<close>

datatype py_error = OverflowError | ZeroDivisionError | TypeError

section \<open>storage.py\<close>

text \<open>
  A row of the table \<open>jobs\<close>: the columns of a \<open>Job\<close> and the two lease columns, which no
  \<open>Job\<close> object carries. The table is the list of its rows. The position of a row in the
  list says nothing about the order in which a query delivers rows: where a query
  leaves that order open, the choice is a parameter of its own (\<open>tie\<close> in \<open>select_next\<close>).
  \<open>id TEXT PRIMARY KEY\<close> is the invariant \<open>pk\<close>. A statement either takes effect or
  raises: the INSERT raises \<open>IntegrityError\<close> on an id that exists and \<open>OverflowError\<close> on
  an integer that is no 64-bit value. Other failures of the storage layer (a locked or
  unreadable database file, an integer that \<open>update_job\<close> cannot bind) are outside the
  model.
\<close>

record job_row = Job +
  locked_by :: "string option"
  locked_at :: "datetime option"

definition pk :: "job_row list \<Rightarrow> bool" where
  "pk rows = distinct (map job_id rows)"

text \<open>\<open>_row_to_job\<close>.\<close>

definition row_to_job :: "job_row \<Rightarrow> Job" where
  "row_to_job row =
     \<lparr>job_id = job_id row, command = command row, state = state row,
      attempts = attempts row, max_retries = max_retries row,
      created_at = created_at row, updated_at = updated_at row,
      next_retry_at = next_retry_at row, error_message = error_message row\<rparr>"

text \<open>
  An INTEGER column holds a signed 64-bit value. The \<open>sqlite3\<close> module binds the
  parameters of a statement before the statement runs, and binding a Python \<open>int\<close>
  outside that range raises \<open>OverflowError\<close>.
\<close>

definition sqlite_int :: "int \<Rightarrow> bool" where
  "sqlite_int n = (- (2 ^ 63) \<le> n \<and> n < 2 ^ 63)"

text \<open>
  \<open>enqueue\<close>: binding \<open>job.attempts\<close> or \<open>job.max_retries\<close> may raise \<open>OverflowError\<close>,
  which \<open>enqueue\<close> does not catch. Otherwise the INSERT runs, and raises \<open>IntegrityError\<close>
  when the primary key exists already; \<open>enqueue\<close> catches that one and returns \<open>False\<close>.
  In both cases the table is as it was. The result is the exception raised or the value
  returned, together with the table.
\<close>

definition enqueue :: "Job \<Rightarrow> job_row list \<Rightarrow> (py_error + bool) \<times> job_row list" where
  "enqueue job rows =
     (if \<not> (sqlite_int (attempts job) \<and> sqlite_int (max_retries job))
      then (Inl OverflowError, rows)
      else if job_id job \<in> set (map job_id rows) then (Inr False, rows)
      else (Inr True, rows @
        [\<lparr>job_id = job_id job, command = command job, state = state job,
          attempts = attempts job, max_retries = max_retries job,
          created_at = created_at job, updated_at = updated_at job,
          next_retry_at = next_retry_at job, error_message = error_message job,
          locked_by = None, locked_at = None\<rparr>]))"

definition get_job :: "string \<Rightarrow> job_row list \<Rightarrow> Job option" where
  "get_job i rows = map_option row_to_job (find (\<lambda>r. job_id r = i) rows)"

text \<open>
  The WHERE clause of \<open>acquire_job\<close>. A comparison with NULL is not true in SQL, so a
  NULL \<open>locked_at\<close> or \<open>next_retry_at\<close> fails its comparison. \<open>thr\<close> is the text of
  \<open>datetime('now', '-5 minutes')\<close>, \<open>now_s\<close> the text bound to the parameter.
\<close>

definition lock_free :: "string \<Rightarrow> job_row \<Rightarrow> bool" where
  "lock_free thr r =
     (locked_by r = None \<or> (case locked_at r of None \<Rightarrow> False | Some t \<Rightarrow> isoformat t < thr))"

definition acquirable :: "string \<Rightarrow> string \<Rightarrow> job_row \<Rightarrow> bool" where
  "acquirable now_s thr r =
     ((state r = PENDING \<and> lock_free thr r) \<or>
      (state r = FAILED \<and>
       (case next_retry_at r of None \<Rightarrow> False | Some t \<Rightarrow> isoformat t \<le> now_s) \<and>
       lock_free thr r))"

text \<open>The SET list of the UPDATE in \<open>acquire_job\<close>.\<close>

definition lock_row :: "string \<Rightarrow> datetime \<Rightarrow> job_row \<Rightarrow> job_row" where
  "lock_row worker_id now r =
     r\<lparr>locked_by := Some worker_id, locked_at := Some now, state := PROCESSING\<rparr>"

text \<open>
  The SELECT of \<open>acquire_job\<close> with \<open>fetchone()\<close>. \<open>ORDER BY created_at ASC LIMIT 1\<close> gives
  a row that passes the WHERE clause and whose \<open>created_at\<close> text is least. The query has
  no second sort key, and which of several rows with that least text the engine
  delivers first depends on the plan it runs (the indexes it scans), not on the ids
  and not on the order of insertion. \<open>tie\<close> stands for that choice: the rows with the
  least text are numbered, and the engine delivers number \<open>tie\<close> (modulo their count).
  A statement for every \<open>tie\<close> holds whichever of them the engine delivers.
\<close>

definition select_next :: "nat \<Rightarrow> string \<Rightarrow> string \<Rightarrow> job_row list \<Rightarrow> job_row option" where
  "select_next tie now_s thr rows =
     (case sort_key (\<lambda>r. isoformat (created_at r)) (filter (acquirable now_s thr) rows) of
        [] \<Rightarrow> None
      | row # rest \<Rightarrow>
          (let least = filter (\<lambda>r. isoformat (created_at r) = isoformat (created_at row))
                         (row # rest)
           in Some (least ! (tie mod length least))))"

text \<open>
  \<open>acquire_job\<close>, run with no other statement on the table in between: \<open>now\<close> is the
  reading of \<open>datetime.utcnow()\<close>, \<open>sql_now\<close> the reading of SQLite's own clock in the
  SELECT. The UPDATE writes the three columns of its SET list into the row of the
  selected id, and the row is read back as a \<open>Job\<close>.
\<close>

definition acquire_job ::
    "nat \<Rightarrow> string \<Rightarrow> datetime \<Rightarrow> datetime \<Rightarrow> job_row list \<Rightarrow> Job option \<times> job_row list" where
  "acquire_job tie worker_id now sql_now rows =
     (case select_next tie (isoformat now) (stale_threshold sql_now) rows of
        None \<Rightarrow> (None, rows)
      | Some row \<Rightarrow>
          (let rows' = map (\<lambda>r. if job_id r = job_id row then lock_row worker_id now r else r) rows
           in (get_job (job_id row) rows', rows')))"

text \<open>
  The statements of \<open>acquire_job\<close> after its SELECT, on their own, for the id \<open>i\<close> of the
  row that the SELECT delivered: the UPDATE writes the three columns of its SET list
  into the row \<open>WHERE id = i\<close> (the id is its only condition), the change is committed,
  and the row of that id is read back and passed to \<open>_row_to_job\<close>, which raises
  \<open>TypeError\<close> when there is no such row. The result is the exception raised or the value
  returned, together with the table.
\<close>

definition lock_and_fetch ::
    "string \<Rightarrow> datetime \<Rightarrow> string \<Rightarrow> job_row list \<Rightarrow> (py_error + Job option) \<times> job_row list" where
  "lock_and_fetch worker_id now i rows =
     (let rows' = map (\<lambda>r. if job_id r = i then lock_row worker_id now r else r) rows
      in (case find (\<lambda>r. job_id r = i) rows' of
            None \<Rightarrow> Inl TypeError
          | Some r \<Rightarrow> Inr (Some (row_to_job r)), rows'))"

text \<open>
  Two worker processes call \<open>acquire_job\<close> at about the same time. Each process has its
  own \<open>JobStore\<close>, so its own \<open>threading.Lock\<close> and its own connection, and
  \<open>acquire_job\<close> opens no transaction around its SELECT and its UPDATE: the statements
  of the two calls can run in any order that keeps each call's own order.
  \<open>acquire_job_interleaved\<close> is the schedule SELECT 1, SELECT 2, UPDATE 1, UPDATE 2 (each
  UPDATE with its commit and read-back); it returns the result of the first call, the
  result of the second, and the table.
\<close>

definition acquire_job_interleaved ::
    "nat \<Rightarrow> string \<Rightarrow> datetime \<Rightarrow> datetime \<Rightarrow> nat \<Rightarrow> string \<Rightarrow> datetime \<Rightarrow> datetime
     \<Rightarrow> job_row list \<Rightarrow> (py_error + Job option) \<times> (py_error + Job option) \<times> job_row list" where
  "acquire_job_interleaved tie1 w1 now1 sql1 tie2 w2 now2 sql2 rows =
     (let s1 = select_next tie1 (isoformat now1) (stale_threshold sql1) rows;
          s2 = select_next tie2 (isoformat now2) (stale_threshold sql2) rows;
          (res1, rows1) = (case s1 of None \<Rightarrow> (Inr None, rows)
                           | Some row \<Rightarrow> lock_and_fetch w1 now1 (job_id row) rows);
          (res2, rows2) = (case s2 of None \<Rightarrow> (Inr None, rows1)
                           | Some row \<Rightarrow> lock_and_fetch w2 now2 (job_id row) rows1)
      in (res1, res2, rows2))"

text \<open>
  \<open>update_job\<close>: \<open>now\<close> is the reading of \<open>datetime.utcnow()\<close> that the function stores in
  \<open>updated_at\<close> (of the object and of the row). \<open>write_job\<close> is the SET list of its UPDATE;
  \<open>created_at\<close> and \<open>id\<close> are not in it. The result is \<open>cursor.rowcount > 0\<close>.
\<close>

definition write_job :: "datetime \<Rightarrow> Job \<Rightarrow> job_row \<Rightarrow> job_row" where
  "write_job now job r =
     r\<lparr>command := command job, state := state job, attempts := attempts job,
       max_retries := max_retries job, updated_at := now,
       next_retry_at := next_retry_at job, error_message := error_message job,
       locked_by := None, locked_at := None\<rparr>"

definition update_job :: "datetime \<Rightarrow> Job \<Rightarrow> job_row list \<Rightarrow> bool \<times> job_row list" where
  "update_job now job rows =
     (job_id job \<in> set (map job_id rows),
      map (\<lambda>r. if job_id r = job_id job then write_job now job r else r) rows)"

text \<open>
  \<open>get_stats\<close>: one group per state text that occurs, with its \<open>COUNT(*)\<close>; the loop
  stores each group in the dictionary.
\<close>

definition state_groups :: "job_row list \<Rightarrow> (string \<times> int) list" where
  "state_groups rows =
     map (\<lambda>s. (s, int (length (filter (\<lambda>r. state_value (state r) = s) rows))))
         (remdups (map (\<lambda>r. state_value (state r)) rows))"

definition get_stats :: "job_row list \<Rightarrow> (string \<rightharpoonup> int)" where
  "get_stats rows = fold (\<lambda>(s, c) stats. stats(s \<mapsto> c)) (state_groups rows) Map.empty"

text \<open>
  \<open>clear_locks\<close>: \<open>if worker_id\<close> is false for \<open>None\<close> and for the empty string.
  \<open>unlock_row\<close> is the SET list of both UPDATEs and \<open>lease_expired\<close> the WHERE clause of
  the second, where a NULL \<open>locked_at\<close> fails the comparison; \<open>sql_now\<close> is the reading of
  SQLite's clock.
\<close>

definition unlock_row :: "job_row \<Rightarrow> job_row" where
  "unlock_row r = r\<lparr>locked_by := None, locked_at := None, state := PENDING\<rparr>"

definition lease_expired :: "string \<Rightarrow> job_row \<Rightarrow> bool" where
  "lease_expired thr r =
     ((case locked_at r of None \<Rightarrow> False | Some t \<Rightarrow> isoformat t < thr) \<and> state r = PROCESSING)"

definition clear_locks :: "string option \<Rightarrow> datetime \<Rightarrow> job_row list \<Rightarrow> job_row list" where
  "clear_locks worker_id sql_now rows =
     (if worker_id \<noteq> None \<and> worker_id \<noteq> Some []
      then map (\<lambda>r. if locked_by r = worker_id \<and> state r = PROCESSING then unlock_row r else r) rows
      else map (\<lambda>r. if lease_expired (stale_threshold sql_now) r then unlock_row r else r) rows)"

section \<open>worker.py\<close>

text \<open>
  \<open>timedelta(seconds=backoff_base ** attempts)\<close> in microseconds, for the integer
  \<open>backoff_base\<close> of the configuration. With an exponent that is not negative the power
  is an integer, computed exactly. With a negative exponent Python computes it in
  floating point: it raises \<open>ZeroDivisionError\<close> for base 0 and \<open>OverflowError\<close> for a
  base that no float holds, and otherwise \<open>timedelta\<close> rounds the float to the
  microsecond. Floating point is not modelled: \<open>float_delay\<close> stands for that
  computation, giving the microseconds or the exception.
\<close>

definition delay_microseconds ::
    "(int \<Rightarrow> int \<Rightarrow> py_error + int) \<Rightarrow> int \<Rightarrow> int \<Rightarrow> py_error + int" where
  "delay_microseconds float_delay backoff_base k =
     (if 0 \<le> k then Inr (backoff_base ^ nat k * 1000000)
      else float_delay backoff_base k)"

text \<open>
  \<open>datetime + timedelta\<close> raises \<open>OverflowError\<close> when the sum is not a datetime (a
  \<open>timedelta\<close> too large to construct raises the same error, and any such delay leaves
  the range of datetimes as well).
\<close>

definition datetime_add :: "datetime \<Rightarrow> int \<Rightarrow> py_error + datetime" where
  "datetime_add t d =
     (if 0 \<le> int t + d \<and> int t + d < int MAXUS then Inr (nat (int t + d))
      else Inl OverflowError)"

text \<open>
  \<open>_mark_completed\<close>: \<open>t_upd\<close> is the clock reading assigned to \<open>job.updated_at\<close>,
  \<open>t_store\<close> the later one made in \<open>update_job\<close>.
\<close>

definition mark_completed :: "datetime \<Rightarrow> datetime \<Rightarrow> Job \<Rightarrow> job_row list \<Rightarrow> job_row list" where
  "mark_completed t_upd t_store job rows =
     snd (update_job t_store (job\<lparr>state := COMPLETED, updated_at := t_upd\<rparr>) rows)"

text \<open>
  \<open>_handle_failure\<close>: three clock readings, \<open>t_upd\<close> for \<open>job.updated_at\<close>, \<open>t_sched\<close>
  for the instant the delay is added to (read in the retry branch only), \<open>t_store\<close> in
  \<open>update_job\<close>. \<open>backoff_base\<close> is \<open>config.get("backoff_base", 2)\<close>. An exception leaves
  the function before \<open>update_job\<close>; the object then keeps what was assigned to it so
  far, which \<open>Inl\<close> returns with the error.
\<close>

definition handle_failure ::
    "(int \<Rightarrow> int \<Rightarrow> py_error + int) \<Rightarrow> int \<Rightarrow> datetime \<Rightarrow> datetime \<Rightarrow> datetime \<Rightarrow> Job
     \<Rightarrow> string option \<Rightarrow> job_row list \<Rightarrow> (py_error \<times> Job) + job_row list" where
  "handle_failure float_delay backoff_base t_upd t_sched t_store job error_msg rows =
     (let job1 = job\<lparr>attempts := attempts job + 1, error_message := error_msg,
                      updated_at := t_upd\<rparr>
      in if max_retries job1 \<le> attempts job1
         then Inr (snd (update_job t_store (job1\<lparr>state := DEAD, next_retry_at := None\<rparr>) rows))
         else (case delay_microseconds float_delay backoff_base (attempts job1) of
                 Inl e \<Rightarrow> Inl (e, job1)
               | Inr delay \<Rightarrow>
                   (case datetime_add t_sched delay of
                      Inl e \<Rightarrow> Inl (e, job1)
                    | Inr t \<Rightarrow>
                        Inr (snd (update_job t_store
                               (job1\<lparr>next_retry_at := Some t, state := FAILED\<rparr>) rows)))))"

text \<open>
  \<open>_process_next_job\<close>. The command's outcome is what \<open>_execute_job\<close> returns, a pair of
  the success flag and the diagnostic. \<open>str_e\<close> is the text Python gives an exception,
  \<open>tie\<close> the engine's choice in the SELECT of \<open>acquire_job\<close>.
  When \<open>_handle_failure\<close> raises, the handler calls it once more on the same object
  with that text, and an exception of this second call leaves the function.
\<close>

definition process_next_job ::
    "(int \<Rightarrow> int \<Rightarrow> py_error + int) \<Rightarrow> int \<Rightarrow> (py_error \<Rightarrow> string) \<Rightarrow> nat \<Rightarrow> string
     \<Rightarrow> datetime \<Rightarrow> datetime \<Rightarrow> bool \<times> string option
     \<Rightarrow> datetime \<times> datetime \<times> datetime \<Rightarrow> datetime \<times> datetime \<times> datetime
     \<Rightarrow> job_row list \<Rightarrow> py_error + job_row list" where
  "process_next_job float_delay backoff_base str_e tie worker_id now sql_now outcome
       clock1 clock2 rows =
     (case acquire_job tie worker_id now sql_now rows of
        (None, rows') \<Rightarrow> Inr rows'
      | (Some job, rows') \<Rightarrow>
          (case (outcome, clock1, clock2) of
             ((success, diag), (t1, t2, t3), (t4, t5, t6)) \<Rightarrow>
               if success then Inr (mark_completed t1 t3 job rows')
               else (case handle_failure float_delay backoff_base t1 t2 t3 job diag rows' of
                       Inr rows'' \<Rightarrow> Inr rows''
                     | Inl (e, job') \<Rightarrow>
                         (case handle_failure float_delay backoff_base t4 t5 t6 job'
                                 (Some (str_e e)) rows' of
                            Inr rows'' \<Rightarrow> Inr rows''
                          | Inl (e', _) \<Rightarrow> Inl e'))))"

section \<open>cli.py: dlq retry\<close>

text \<open>What \<open>click.echo\<close> prints: on standard output, or on standard error (\<open>err=True\<close>).\<close>

datatype echo = Out string | Err string

definition quoted :: "string \<Rightarrow> string" where
  "quoted s = [CHR 0x27] @ s @ [CHR 0x27]"

definition retry :: "datetime \<Rightarrow> string \<Rightarrow> job_row list \<Rightarrow> echo \<times> job_row list" where
  "retry t_store i rows =
     (case get_job i rows of
        None \<Rightarrow> (Err (''Error: Job '' @ quoted i @ '' not found''), rows)
      | Some job \<Rightarrow>
          if state job \<noteq> DEAD
          then (Err (''Error: Job '' @ quoted i @ '' is not in Dead Letter Queue (state: '' @
                     state_value (state job) @ '')''), rows)
          else (case update_job t_store
                       (job\<lparr>state := PENDING, attempts := 0, error_message := None,
                            next_retry_at := None\<rparr>) rows of
                  (ok, rows') \<Rightarrow>
                    (if ok then Out (''[OK] Job '' @ quoted i @ '' has been requeued for retry'')
                     else Err (''Error: Failed to update job '' @ quoted i), rows')))"

section \<open>Sample data\<close>

text \<open>\<open>noon\<close> is 2024-11-04T12:00:00.\<close>

definition noon :: datetime where
  "noon = 63866318400000000"

definition minutes :: "nat \<Rightarrow> nat" where
  "minutes n = n * 60 * 1000000"

text \<open>Leased ten minutes before noon, and a day before noon.\<close>

definition row_E :: job_row where
  "row_E = \<lparr>job_id = ''E'', command = ''sleep 1'', state = PROCESSING, attempts = 0,
     max_retries = 3, created_at = noon - minutes 20, updated_at = noon - minutes 20,
     next_retry_at = None, error_message = None,
     locked_by = Some ''ghost'', locked_at = Some (noon - minutes 10)\<rparr>"

definition row_G :: job_row where
  "row_G = row_E\<lparr>job_id := ''G'', created_at := noon - minutes 1450,
     updated_at := noon - minutes 1450, locked_at := Some (noon - minutes 1440)\<rparr>"

text \<open>Pending jobs; \<open>row_b\<close> and \<open>row_a\<close> were admitted at the same instant.\<close>

definition row_A :: job_row where
  "row_A = \<lparr>job_id = ''A'', command = ''echo hello'', state = PENDING, attempts = 0,
     max_retries = 3, created_at = noon - minutes 60, updated_at = noon - minutes 60,
     next_retry_at = None, error_message = None, locked_by = None, locked_at = None\<rparr>"

definition row_b :: job_row where
  "row_b = row_A\<lparr>job_id := ''b''\<rparr>"

definition row_a :: job_row where
  "row_a = row_A\<lparr>job_id := ''a''\<rparr>"

text \<open>A job that failed once and is due again.\<close>

definition row_F :: job_row where
  "row_F = \<lparr>job_id = ''F'', command = ''make'', state = FAILED, attempts = 1,
     max_retries = 3, created_at = noon - minutes 60, updated_at = noon - minutes 2,
     next_retry_at = Some (noon - minutes 1), error_message = Some ''Exit code 1'',
     locked_by = None, locked_at = None\<rparr>"

text \<open>A job in the dead-letter queue, and a job to enqueue twice.\<close>

definition row_D :: job_row where
  "row_D = \<lparr>job_id = ''D'', command = ''make'', state = DEAD, attempts = 3,
     max_retries = 3, created_at = noon - minutes 60, updated_at = noon - minutes 2,
     next_retry_at = None, error_message = Some ''Exit code 1'',
     locked_by = None, locked_at = None\<rparr>"


text \<open>
  In the samples no attempt count is negative, so no power is computed in floating
  point; this value fills the place of \<open>float_delay\<close> there.
\<close>

definition no_float_delay :: "int \<Rightarrow> int \<Rightarrow> py_error + int" where
  "no_float_delay backoff_base k = Inl OverflowError"

section \<open>Evaluating the text forms\<close>

lemmas text_defs = isoformat_def sqlite_datetime_def stale_threshold_def date_text_def
  time_text_def ord2ymd_def days_in_months_def pad2_def pad4_def pad6_def digit_def Let_def

text \<open>The first and the last datetime, a leap day, and SQLite's truncation to the second.\<close>

lemma isoformat_min: "isoformat 0 = ''0001-01-01T00:00:00''"
  by (simp add: text_defs)

lemma isoformat_max: "isoformat (MAXUS - 1) = ''9999-12-31T23:59:59.999999''"
  by (simp add: MAXUS_def text_defs)

lemma isoformat_leap_day:
  "isoformat (738944 * 86400000000 + 1) = ''2024-02-29T00:00:00.000001''"
  by (simp add: text_defs)

lemma sqlite_datetime_noon: "sqlite_datetime (noon + 999999) = ''2024-11-04 12:00:00''"
  by (simp add: noon_def text_defs)

lemma iso_noon: "isoformat noon = ''2024-11-04T12:00:00''"
  by (simp add: noon_def text_defs)

lemma iso_noon10: "isoformat (noon - minutes 10) = ''2024-11-04T11:50:00''"
  by (simp add: noon_def minutes_def text_defs)

lemma thr_noon: "stale_threshold noon = ''2024-11-04 11:55:00''"
  by (simp add: noon_def text_defs)

lemma iso_day_before: "isoformat (noon - minutes 1440) = ''2024-11-03T12:00:00''"
  by (simp add: noon_def minutes_def text_defs)

section \<open>The order of the text forms\<close>

text \<open>
  The text of \<open>isoformat\<close> orders datetimes as time does, so \<open>ORDER BY created_at\<close> and
  \<open>next_retry_at <= ?\<close> compare instants. Against the text of SQLite's \<open>datetime\<close> only
  the calendar day counts: where the days agree, \<open>T\<close> stands against a space.
\<close>

subsection \<open>The year of a day number\<close>

lemma div_eqI: "(z::nat) = B * q + r \<Longrightarrow> r < B \<Longrightarrow> z div B = q"
  by simp

lemma mod_eqI: "(z::nat) = B * q + r \<Longrightarrow> r < B \<Longrightarrow> z mod B = r"
  by simp

lemma dby_chain:
  assumes "b \<le> 3" and "c \<le> 24" and "e \<le> 3"
  shows "days_before_year (400 * a + 100 * b + 4 * c + e + 1) =
           146097 * a + 36524 * b + 1461 * c + 365 * e"
proof -
  let ?z = "400 * a + 100 * b + 4 * c + e"
  have 4: "?z div 4 = 100 * a + 25 * b + c"
    using assms by (intro div_eqI [where r = e]) simp_all
  have 100: "?z div 100 = 4 * a + b"
    using assms by (intro div_eqI [where r = "4 * c + e"]) simp_all
  have 400: "?z div 400 = a"
    using assms by (intro div_eqI [where r = "100 * b + 4 * c + e"]) simp_all
  show ?thesis
    by (simp add: days_before_year_def 4 100 400)
qed

lemma mod4_chain:
  assumes "e \<le> 3"
  shows "((400 * a + 100 * b + 4 * c + e + 1) mod 4 = 0) = (e = (3::nat))"
proof (cases "e = 3")
  case True
  have "(400 * a + 100 * b + 4 * c + 3 + 1) mod 4 = 0"
    by (rule mod_eqI [where q = "100 * a + 25 * b + c + 1"]) simp_all
  with True show ?thesis by simp
next
  case False
  have "(400 * a + 100 * b + 4 * c + e + 1) mod 4 = e + 1"
    using assms False by (intro mod_eqI [where q = "100 * a + 25 * b + c"]) simp_all
  with False show ?thesis by simp
qed

lemma mod100_chain:
  assumes "c \<le> 24" and "e \<le> 3"
  shows "((400 * a + 100 * b + 4 * c + e + 1) mod 100 = 0) = (c = 24 \<and> e = (3::nat))"
proof (cases "c = 24 \<and> e = 3")
  case True
  have "(400 * a + 100 * b + 4 * 24 + 3 + 1) mod 100 = 0"
    by (rule mod_eqI [where q = "4 * a + b + 1"]) simp_all
  with True show ?thesis by simp
next
  case False
  with assms have l: "4 * c + e + 1 < 100" by linarith
  have "(400 * a + 100 * b + 4 * c + e + 1) mod 100 = 4 * c + e + 1"
    using l by (intro mod_eqI [where q = "4 * a + b"]) simp_all
  with False show ?thesis by simp
qed

lemma mod400_chain:
  assumes "b \<le> 3" and "c \<le> 24" and "e \<le> 3"
  shows "((400 * a + 100 * b + 4 * c + e + 1) mod 400 = 0) = (b = 3 \<and> c = 24 \<and> e = (3::nat))"
proof (cases "b = 3 \<and> c = 24 \<and> e = 3")
  case True
  have "(400 * a + 100 * 3 + 4 * 24 + 3 + 1) mod 400 = 0"
    by (rule mod_eqI [where q = "a + 1"]) simp_all
  with True show ?thesis by simp
next
  case False
  with assms have l: "100 * b + 4 * c + e + 1 < 400" by linarith
  have "(400 * a + 100 * b + 4 * c + e + 1) mod 400 = 100 * b + 4 * c + e + 1"
    using l by (intro mod_eqI [where q = a]) simp_all
  with False show ?thesis by simp
qed

lemma leap_chain:
  assumes "b \<le> 3" and "c \<le> 24" and "e \<le> 3"
  shows "leap_year (400 * a + 100 * b + 4 * c + e + 1) = (e = 3 \<and> (c \<noteq> 24 \<or> b = 3))"
  unfolding leap_year_def mod4_chain [OF assms(3)] mod100_chain [OF assms(2,3)]
    mod400_chain [OF assms] by auto


lemma month_day_last:
  "month_day (days_in_months True) 1 365 = (12, 31)"
  "month_day (days_in_months True) (Suc 0) 365 = (12, 31)"
  by (simp_all add: days_in_months_def)

lemma ord2ymd_spec:
  obtains y n where
    "ord2ymd D = (case month_day (days_in_months (leap_year y)) 1 n of (m, d) \<Rightarrow> (y, m, d))"
    and "D = days_before_year y + n" and "n < year_length y" and "1 \<le> y"
proof -
  define a where "a = D div 146097"
  define r where "r = D mod 146097"
  define b where "b = r div 36524"
  define r1 where "r1 = r mod 36524"
  define c where "c = r1 div 1461"
  define r2 where "r2 = r1 mod 1461"
  define e where "e = r2 div 365"
  define n where "n = r2 mod 365"
  have D: "D = 146097 * a + r" and r: "r < 146097"
    by (simp_all add: a_def r_def)
  have r': "r = 36524 * b + r1" and r1: "r1 < 36524"
    by (simp_all add: b_def r1_def)
  have r1': "r1 = 1461 * c + r2" and r2: "r2 < 1461"
    by (simp_all add: c_def r2_def)
  have r2': "r2 = 365 * e + n" and n: "n < 365"
    by (simp_all add: e_def n_def)
  have u: "ord2ymd D =
      (if e = 4 \<or> b = 4 then (400 * a + 100 * b + 4 * c + e + 1 - 1, 12, 31)
       else case month_day (days_in_months (e = 3 \<and> (c \<noteq> 24 \<or> b = 3))) 1 n of
              (m, d) \<Rightarrow> (400 * a + 100 * b + 4 * c + e + 1, m, d))"
    by (simp add: ord2ymd_def Let_def a_def r_def b_def r1_def c_def r2_def e_def n_def)
  have b4: "b \<le> 4" using r r' by linarith
  have c24: "c \<le> 24" using r1 r1' by linarith
  have e4: "e \<le> 4" using r2 r2' by linarith
  consider (last400) "b = 4" | (last4) "b \<le> 3" "e = 4" | (normal) "b \<le> 3" "e \<le> 3"
    using b4 e4 by linarith
  then show thesis
  proof cases
    case last400
    with r r' have "r1 = 0" by linarith
    with r1' r2' have z: "c = 0" "e = 0" "n = 0" "r2 = 0" by simp_all
    let ?y = "400 * a + 100 * 3 + 4 * 24 + 3 + 1"
    have l: "leap_year ?y" using leap_chain [of 3 24 3 a] by simp
    have d: "days_before_year ?y = 146097 * a + 36524 * 3 + 1461 * 24 + 365 * 3"
      by (rule dby_chain) simp_all
    show thesis
    proof (rule that [of ?y 365])
      show "ord2ymd D = (case month_day (days_in_months (leap_year ?y)) 1 365 of
                           (m, d) \<Rightarrow> (?y, m, d))"
        using l by (simp add: u last400 z month_day_last)
      show "D = days_before_year ?y + 365"
        unfolding d using D r' last400 \<open>r1 = 0\<close> by simp
      show "365 < year_length ?y" using l by (simp add: year_length_def)
      show "1 \<le> ?y" by simp
    qed
  next
    case last4
    with r2 r2' have n0: "n = 0" by linarith
    have c23: "c \<le> 23" using r1 r1' r2' last4(2) by linarith
    let ?y = "400 * a + 100 * b + 4 * c + 3 + 1"
    have l: "leap_year ?y" using leap_chain [of b c 3 a] last4(1) c23 by simp
    have d: "days_before_year ?y = 146097 * a + 36524 * b + 1461 * c + 365 * 3"
      using last4(1) c23 by (intro dby_chain) simp_all
    show thesis
    proof (rule that [of ?y 365])
      show "ord2ymd D = (case month_day (days_in_months (leap_year ?y)) 1 365 of
                           (m, d) \<Rightarrow> (?y, m, d))"
        using l by (simp add: u last4 month_day_last)
      show "D = days_before_year ?y + 365"
        unfolding d using D r' r1' r2' last4(2) n0 by simp
      show "365 < year_length ?y" using l by (simp add: year_length_def)
      show "1 \<le> ?y" by simp
    qed
  next
    case normal
    let ?y = "400 * a + 100 * b + 4 * c + e + 1"
    have l: "leap_year ?y = (e = 3 \<and> (c \<noteq> 24 \<or> b = 3))"
      using normal c24 by (intro leap_chain) simp_all
    have d: "days_before_year ?y = 146097 * a + 36524 * b + 1461 * c + 365 * e"
      using normal c24 by (intro dby_chain) simp_all
    show thesis
    proof (rule that [of ?y n])
      show "ord2ymd D = (case month_day (days_in_months (leap_year ?y)) 1 n of
                           (m, d) \<Rightarrow> (?y, m, d))"
        unfolding l using normal by (simp add: u)
      show "D = days_before_year ?y + n"
        unfolding d using D r' r1' r2' by simp
      show "n < year_length ?y" using n by (simp add: year_length_def)
      show "1 \<le> ?y" by simp
    qed
  qed
qed



subsection \<open>Years follow one another\<close>

lemma mod_0_trans:
  fixes k :: nat
  assumes "k mod B = 0" and "A dvd B"
  shows "k mod A = 0"
proof -
  from assms(1) have "B dvd k" by (simp only: mod_eq_0_iff_dvd)
  with assms(2) have "A dvd k" by (rule dvd_trans)
  then show ?thesis by (simp only: mod_eq_0_iff_dvd)
qed

lemma dby_Suc:
  assumes "1 \<le> y"
  shows "days_before_year (Suc y) = days_before_year y + year_length y"
proof -
  obtain k where y: "y = Suc k" using assms by (cases y) auto
  define p q s where "p = k div 4" and "q = k div 100" and "s = k div 400"
  have 4: "Suc k div 4 = (if Suc k mod 4 = 0 then Suc p else p)"
    unfolding p_def by (rule div_Suc)
  have 100: "Suc k div 100 = (if Suc k mod 100 = 0 then Suc q else q)"
    unfolding q_def by (rule div_Suc)
  have 400: "Suc k div 400 = (if Suc k mod 400 = 0 then Suc s else s)"
    unfolding s_def by (rule div_Suc)
  have i1: "Suc k mod 400 = 0 \<Longrightarrow> Suc k mod 100 = 0"
    by (rule mod_0_trans [where B = 400]) simp_all
  have i2: "Suc k mod 100 = 0 \<Longrightarrow> Suc k mod 4 = 0"
    by (rule mod_0_trans [where B = 100]) simp_all
  have l1: "q \<le> p" unfolding p_def q_def by (rule div_le_mono2) simp_all
  have d: "days_before_year (Suc k) = 365 * k + p - q + s"
    by (simp add: days_before_year_def p_def q_def s_def)
  have d': "days_before_year (Suc (Suc k)) =
              365 * Suc k + Suc k div 4 - Suc k div 100 + Suc k div 400"
    by (simp add: days_before_year_def)
  consider (c400) "Suc k mod 400 = 0" | (c100) "Suc k mod 400 \<noteq> 0" "Suc k mod 100 = 0"
    | (c4) "Suc k mod 100 \<noteq> 0" "Suc k mod 4 = 0" | (c1) "Suc k mod 4 \<noteq> 0"
    by blast
  then show ?thesis
  proof cases
    case c400
    with i1 i2 have m: "Suc k mod 100 = 0" "Suc k mod 4 = 0" by simp_all
    have "year_length (Suc k) = 366"
      using c400 m by (simp add: year_length_def leap_year_def)
    moreover have "days_before_year (Suc (Suc k)) = 365 * Suc k + Suc p - Suc q + Suc s"
      unfolding d' 4 100 400 using c400 m by simp
    ultimately show ?thesis unfolding y d using l1 by simp
  next
    case c100
    with i2 have m: "Suc k mod 4 = 0" by simp
    have "year_length (Suc k) = 365"
      using c100 m by (simp add: year_length_def leap_year_def)
    moreover have "days_before_year (Suc (Suc k)) = 365 * Suc k + Suc p - Suc q + s"
      unfolding d' 4 100 400 using c100 m by simp
    ultimately show ?thesis unfolding y d using l1 by simp
  next
    case c4
    have m: "Suc k mod 400 \<noteq> 0"
    proof
      assume "Suc k mod 400 = 0"
      then have "Suc k mod 100 = 0" by (rule i1)
      with c4 show False by simp
    qed
    have "year_length (Suc k) = 366"
      using c4 m by (simp add: year_length_def leap_year_def)
    moreover have "days_before_year (Suc (Suc k)) = 365 * Suc k + Suc p - q + s"
      unfolding d' 4 100 400 using c4 m by simp
    ultimately show ?thesis unfolding y d using l1 by simp
  next
    case c1
    have m2: "Suc k mod 100 \<noteq> 0"
    proof
      assume "Suc k mod 100 = 0"
      then have "Suc k mod 4 = 0" by (rule i2)
      with c1 show False by simp
    qed
    have m1: "Suc k mod 400 \<noteq> 0"
    proof
      assume "Suc k mod 400 = 0"
      then have "Suc k mod 100 = 0" by (rule i1)
      with m2 show False by simp
    qed
    note m = m1 m2
    have "year_length (Suc k) = 365"
      using c1 m by (simp add: year_length_def leap_year_def)
    moreover have "days_before_year (Suc (Suc k)) = 365 * Suc k + p - q + s"
      unfolding d' 4 100 400 using c1 m by simp
    ultimately show ?thesis unfolding y d using l1 by simp
  qed
qed

lemma dby_mono: "y \<le> y' \<Longrightarrow> days_before_year y \<le> days_before_year y'"
proof (rule lift_Suc_mono_le [of days_before_year])
  fix n show "days_before_year n \<le> days_before_year (Suc n)"
  proof (cases "n = 0")
    case True
    then show ?thesis by (simp add: days_before_year_def)
  next
    case False
    then show ?thesis by (simp add: dby_Suc)
  qed
qed

lemma dby_next:
  assumes "1 \<le> y" and "y < y'"
  shows "days_before_year y + year_length y \<le> days_before_year y'"
proof -
  from assms(2) have "days_before_year (Suc y) \<le> days_before_year y'"
    by (intro dby_mono) simp
  with dby_Suc [OF assms(1)] show ?thesis by simp
qed

lemma year_and_day_mono:
  assumes "D = days_before_year y + n" and "n < year_length y" and "1 \<le> y"
    and "D' = days_before_year y' + n'" and "n' < year_length y'" and "1 \<le> y'"
    and "D < D'"
  shows "y < y' \<or> y = y' \<and> n < n'"
proof (cases y y' rule: linorder_cases)
  case less
  then show ?thesis by simp
next
  case equal
  with assms show ?thesis by simp
next
  case greater
  from dby_next [OF assms(6) greater] assms show ?thesis by linarith
qed

subsection \<open>Month and day\<close>

lemma month_day_fst:
  "m \<le> fst (month_day ls m n) \<and> fst (month_day ls m n) \<le> m + length ls"
proof (induction ls arbitrary: m n)
  case Nil
  show ?case by simp
next
  case (Cons l ls)
  from Cons [of "m + 1" "n - l"] show ?case by auto
qed

lemma month_day_snd:
  "(\<forall>l\<in>set ls. l \<le> 31) \<Longrightarrow> n < sum_list ls + 31 \<Longrightarrow>
     1 \<le> snd (month_day ls m n) \<and> snd (month_day ls m n) \<le> 31"
proof (induction ls arbitrary: m n)
  case Nil
  then show ?case by simp
next
  case (Cons l ls)
  show ?case
  proof (cases "n < l")
    case True
    with Cons.prems show ?thesis by simp
  next
    case False
    with Cons.prems have "n - l < sum_list ls + 31" by simp
    with Cons.IH [of "n - l" "m + 1"] Cons.prems False show ?thesis by simp
  qed
qed

lemma month_day_mono:
  "n < n' \<Longrightarrow>
     fst (month_day ls m n) < fst (month_day ls m n') \<or>
     fst (month_day ls m n) = fst (month_day ls m n') \<and>
     snd (month_day ls m n) < snd (month_day ls m n')"
proof (induction ls arbitrary: m n n')
  case Nil
  then show ?case by simp
next
  case (Cons l ls)
  show ?case
  proof (cases "n < l")
    case True
    show ?thesis
    proof (cases "n' < l")
      case True
      with \<open>n < l\<close> Cons.prems show ?thesis by simp
    next
      case False
      have "m + 1 \<le> fst (month_day ls (m + 1) (n' - l))"
        using month_day_fst [of "m + 1" ls "n' - l"] by simp
      with \<open>n < l\<close> False show ?thesis by simp
    qed
  next
    case False
    with Cons.prems have "\<not> n' < l" "n - l < n' - l" by simp_all
    with Cons.IH [of "n - l" "n' - l" "m + 1"] False show ?thesis by simp
  qed
qed

subsection \<open>Digits\<close>

lemma lex_divmod:
  fixes a b B :: nat
  assumes "0 < B"
  shows "(a div B < b div B \<or> a div B = b div B \<and> a mod B < b mod B) = (a < b)"
proof
  assume "a div B < b div B \<or> a div B = b div B \<and> a mod B < b mod B"
  then show "a < b"
  proof
    assume "a div B < b div B"
    then show ?thesis using div_le_mono [of b a B] by (cases "a < b") auto
  next
    assume h: "a div B = b div B \<and> a mod B < b mod B"
    have "a = B * (a div B) + a mod B" "b = B * (b div B) + b mod B" by simp_all
    with h show ?thesis by (metis add_less_cancel_left)
  qed
next
  assume l: "a < b"
  then have "a div B \<le> b div B" by (simp add: div_le_mono)
  moreover have "a mod B < b mod B" if "a div B = b div B"
  proof -
    have "a = B * (a div B) + a mod B" "b = B * (b div B) + b mod B" by simp_all
    with that l show ?thesis by (metis add_less_cancel_left)
  qed
  ultimately show "a div B < b div B \<or> a div B = b div B \<and> a mod B < b mod B"
    by (cases "a div B = b div B") auto
qed

lemma eq_divmod:
  fixes a b B :: nat
  shows "(a div B = b div B \<and> a mod B = b mod B) = (a = b)"
  by (metis div_mult_mod_eq)

lemma mod_div_swap: "(n::nat) mod (a * b) div a = n div a mod b"
  by (cases "a = 0") (simp_all add: mod_mult2_eq)

lemma append_less_same_length:
  fixes a b :: "'a::linorder list"
  shows "length a = length b \<Longrightarrow> (a @ x < b @ y) = (a < b \<or> a = b \<and> x < y)"
  by (induction a b rule: list_induct2) auto

lemma digit_val:
  "d < 10 \<Longrightarrow> of_char (digit d) = (48 + d :: nat)"
proof -
  assume "d < 10"
  then have "d \<in> {0, 1, 2, 3, 4, 5, 6, 7, 8, 9}" by auto
  then show ?thesis by (auto simp: digit_def)
qed

lemma digit_less:
  assumes "a < 10" and "b < 10"
  shows "(digit a < digit b) = (a < b)" and "(digit a = digit b) = (a = b)"
proof -
  show "(digit a < digit b) = (a < b)"
    using digit_val [OF assms(1)] digit_val [OF assms(2)] by (simp add: less_char_def)
  have "digit a = digit b \<Longrightarrow> a = b"
  proof -
    assume "digit a = digit b"
    then have "(of_char (digit a) :: nat) = of_char (digit b)" by simp
    then show "a = b" by (simp add: digit_val assms)
  qed
  then show "(digit a = digit b) = (a = b)" by auto
qed

lemma digit_mod: "digit (n mod 10) = digit n"
  by (simp add: digit_def)

lemma pad2_less:
  assumes "a < 100" and "b < 100"
  shows "(pad2 a < pad2 b) = (a < b)" and "(pad2 a = pad2 b) = (a = b)"
proof -
  have 1: "a div 10 < 10" "b div 10 < 10" "a mod 10 < 10" "b mod 10 < 10"
    using assms by simp_all
  have p: "pad2 n = [digit (n div 10), digit (n mod 10)]" for n
    by (simp add: pad2_def digit_mod)
  show "(pad2 a < pad2 b) = (a < b)"
    unfolding p using 1 lex_divmod [of 10 a b] by (simp add: digit_less)
  show "(pad2 a = pad2 b) = (a = b)"
    unfolding p using 1 eq_divmod [of a 10 b] by (simp add: digit_less)
qed

lemma length_pad [simp]: "length (pad2 n) = 2" "length (pad4 n) = 4" "length (pad6 n) = 6"
  by (simp_all add: pad2_def pad4_def pad6_def)

lemma pad4_split: "pad4 n = pad2 (n div 100) @ pad2 (n mod 100)"
proof -
  have 1: "n div 100 div 10 = n div 1000" by (simp add: div_mult2_eq [symmetric])
  have 2: "n mod 100 div 10 = n div 10 mod 10" using mod_div_swap [of n 10 10] by simp
  have 3: "n mod 100 mod 10 = n mod 10" by (simp add: mod_mod_cancel)
  show ?thesis by (simp add: pad4_def pad2_def digit_def 1 2 3)
qed

lemma pad6_split: "pad6 n = pad2 (n div 10000) @ pad4 (n mod 10000)"
proof -
  have 1: "n div 10000 div 10 = n div 100000" by (simp add: div_mult2_eq [symmetric])
  have 2: "n mod 10000 div 1000 = n div 1000 mod 10" using mod_div_swap [of n 1000 10] by simp
  have 3: "n mod 10000 div 100 mod 10 = n div 100 mod 10"
    using mod_div_swap [of n 100 100] by (simp add: mod_mod_cancel)
  have 4: "n mod 10000 div 10 mod 10 = n div 10 mod 10"
    using mod_div_swap [of n 10 1000] by (simp add: mod_mod_cancel)
  have 5: "n mod 10000 mod 10 = n mod 10" by (simp add: mod_mod_cancel)
  show ?thesis by (simp add: pad6_def pad4_def pad2_def digit_def 1 2 3 4 5)
qed

lemma pad4_less:
  assumes "a < 10000" and "b < 10000"
  shows "(pad4 a < pad4 b) = (a < b)" and "(pad4 a = pad4 b) = (a = b)"
proof -
  have 1: "a div 100 < 100" "b div 100 < 100" "a mod 100 < 100" "b mod 100 < 100"
    using assms by simp_all
  show "(pad4 a < pad4 b) = (a < b)"
    unfolding pad4_split using 1 lex_divmod [of 100 a b]
    by (simp add: append_less_same_length pad2_less)
  show "(pad4 a = pad4 b) = (a = b)"
    unfolding pad4_split using 1 eq_divmod [of a 100 b] by (simp add: pad2_less)
qed

lemma pad6_less:
  assumes "a < 1000000" and "b < 1000000"
  shows "(pad6 a < pad6 b) = (a < b)" and "(pad6 a = pad6 b) = (a = b)"
proof -
  have 1: "a div 10000 < 100" "b div 10000 < 100" "a mod 10000 < 10000" "b mod 10000 < 10000"
    using assms by simp_all
  show "(pad6 a < pad6 b) = (a < b)"
    unfolding pad6_split using 1 lex_divmod [of 10000 a b]
    by (simp add: append_less_same_length pad2_less pad4_less)
  show "(pad6 a = pad6 b) = (a = b)"
    unfolding pad6_split using 1 eq_divmod [of a 10000 b] by (simp add: pad2_less pad4_less)
qed



subsection \<open>Dates, times of day and instants\<close>

lemma days_in_months_facts:
  "sum_list (days_in_months True) = 335" "sum_list (days_in_months False) = 334"
  "length (days_in_months leap) = 11" "\<forall>l\<in>set (days_in_months leap). l \<le> 31"
  by (simp_all add: days_in_months_def)

lemma dby_10000: "days_before_year 10000 = 3652059"
  by (simp add: days_before_year_def)

lemma ord2ymd_fields:
  assumes "ord2ymd D = (y, m, d)"
  shows "1 \<le> m \<and> m \<le> 12 \<and> 1 \<le> d \<and> d \<le> 31" and "D < 3652059 \<Longrightarrow> y < 10000"
proof -
  obtain y0 n where
    o: "ord2ymd D = (case month_day (days_in_months (leap_year y0)) 1 n of (m, d) \<Rightarrow> (y0, m, d))"
    and D: "D = days_before_year y0 + n" and n: "n < year_length y0" and y0: "1 \<le> y0"
    by (rule ord2ymd_spec)
  from o assms have y: "y = y0"
    and md: "month_day (days_in_months (leap_year y)) 1 n = (m, d)"
    by (auto split: prod.splits)
  have "n < sum_list (days_in_months (leap_year y)) + 31"
    using n by (cases "leap_year y") (simp_all add: y year_length_def days_in_months_facts)
  with month_day_snd [of "days_in_months (leap_year y)" n 1] md
  have "1 \<le> d \<and> d \<le> 31" by (simp add: days_in_months_facts)
  moreover from month_day_fst [of 1 "days_in_months (leap_year y)" n] md
  have "1 \<le> m \<and> m \<le> 12" by (simp add: days_in_months_facts)
  ultimately show "1 \<le> m \<and> m \<le> 12 \<and> 1 \<le> d \<and> d \<le> 31" by simp
  show "y < 10000" if "D < 3652059"
  proof (rule ccontr)
    assume "\<not> y < 10000"
    then have "days_before_year 10000 \<le> days_before_year y" by (intro dby_mono) simp
    with D that show False by (simp add: dby_10000 y)
  qed
qed

lemma ord2ymd_mono:
  assumes "D < D'" and "ord2ymd D = (y, m, d)" and "ord2ymd D' = (y', m', d')"
  shows "y < y' \<or> y = y' \<and> (m < m' \<or> m = m' \<and> d < d')"
proof -
  obtain y0 n where
    o: "ord2ymd D = (case month_day (days_in_months (leap_year y0)) 1 n of (m, d) \<Rightarrow> (y0, m, d))"
    and D: "D = days_before_year y0 + n" and n: "n < year_length y0" and y0: "1 \<le> y0"
    by (rule ord2ymd_spec)
  obtain y1 n' where
    o': "ord2ymd D' = (case month_day (days_in_months (leap_year y1)) 1 n' of (m, d) \<Rightarrow> (y1, m, d))"
    and D': "D' = days_before_year y1 + n'" and n': "n' < year_length y1" and y1: "1 \<le> y1"
    by (rule ord2ymd_spec)
  from o assms(2) have y: "y = y0"
    and md: "month_day (days_in_months (leap_year y)) 1 n = (m, d)"
    by (auto split: prod.splits)
  from o' assms(3) have y': "y' = y1"
    and md': "month_day (days_in_months (leap_year y')) 1 n' = (m', d')"
    by (auto split: prod.splits)
  from year_and_day_mono [OF D n y0 D' n' y1 assms(1)]
  have "y < y' \<or> y = y' \<and> n < n'" by (simp add: y y')
  then show ?thesis
  proof
    assume "y < y'" then show ?thesis by simp
  next
    assume h: "y = y' \<and> n < n'"
    with month_day_mono [of n n' "days_in_months (leap_year y)" 1] md md'
    show ?thesis by simp
  qed
qed

lemma length_date_text [simp]: "length (date_text t) = 10"
  by (simp add: date_text_def split: prod.splits)

lemma length_time_text [simp]: "length (time_text t) = 8"
  by (simp add: time_text_def Let_def)

lemma date_text_less:
  assumes "t div 86400000000 < t' div 86400000000" and "t' div 86400000000 < 3652059"
  shows "date_text t < date_text t'"
proof -
  obtain y m d where o: "ord2ymd (t div 86400000000) = (y, m, d)"
    by (cases "ord2ymd (t div 86400000000)") auto
  obtain y' m' d' where o': "ord2ymd (t' div 86400000000) = (y', m', d')"
    by (cases "ord2ymd (t' div 86400000000)") auto
  from assms have "t div 86400000000 < 3652059" by simp
  from ord2ymd_fields [OF o] this have b: "m < 100" "d < 100" "y < 10000" by simp_all
  from ord2ymd_fields [OF o'] assms(2) have b': "m' < 100" "d' < 100" "y' < 10000" by simp_all
  from ord2ymd_mono [OF assms(1) o o']
  show ?thesis
    by (simp add: date_text_def o o' append_less_same_length pad4_less pad2_less b b')
qed

lemma time_text_less:
  assumes "t div 1000000 mod 86400 < t' div 1000000 mod 86400"
  shows "time_text t < time_text t'"
proof -
  define s where "s = t div 1000000 mod 86400"
  define s' where "s' = t' div 1000000 mod 86400"
  have s: "s < 86400" "s' < 86400" by (simp_all add: s_def s'_def)
  have 1: "n mod 3600 div 60 = n div 60 mod 60" for n :: nat
    using mod_div_swap [of n 60 60] by simp
  have 2: "n mod 3600 mod 60 = n mod 60" for n :: nat
    by (simp add: mod_mod_cancel)
  have h: "s div 3600 < 100" "s' div 3600 < 100"
    using s by (simp_all add: less_mult_imp_div_less)
  have m: "s div 60 mod 60 < 100" "s' div 60 mod 60 < 100" "s mod 60 < 100" "s' mod 60 < 100"
    by (rule less_trans [where y = 60], simp, simp)+
  from assms have "s < s'" by (simp add: s_def s'_def)
  with lex_divmod [of 3600 s s']
  have "s div 3600 < s' div 3600 \<or> s div 3600 = s' div 3600 \<and> s mod 3600 < s' mod 3600"
    by simp
  with lex_divmod [of 60 "s mod 3600" "s' mod 3600"]
  have "s div 3600 < s' div 3600 \<or> s div 3600 = s' div 3600 \<and>
        (s div 60 mod 60 < s' div 60 mod 60 \<or>
         s div 60 mod 60 = s' div 60 mod 60 \<and> s mod 60 < s' mod 60)"
    by (simp add: 1 2)
  then show ?thesis
    unfolding time_text_def Let_def s_def [symmetric] s'_def [symmetric]
    by (simp add: append_less_same_length pad2_less h m)
qed

lemma fraction_less:
  assumes "u < u'" and "u' < 1000000"
  shows "(if u = 0 then [] else ''.'' @ pad6 u) < (if u' = 0 then [] else ''.'' @ pad6 u')"
  using assms by (simp add: pad6_less)


lemma day_number_bound: "t < MAXUS \<Longrightarrow> t div 86400000000 < 3652059"
  by (simp add: MAXUS_def less_mult_imp_div_less)

lemma instant_parts:
  fixes t t' :: nat
  assumes "t < t'"
  shows "t div 86400000000 < t' div 86400000000 \<or>
         t div 86400000000 = t' div 86400000000 \<and>
         (t div 1000000 mod 86400 < t' div 1000000 mod 86400 \<or>
          t div 1000000 mod 86400 = t' div 1000000 mod 86400 \<and>
          t mod 1000000 < t' mod 1000000)"
proof -
  have 1: "n mod 86400000000 div 1000000 = n div 1000000 mod 86400" for n :: nat
    using mod_div_swap [of n 1000000 86400] by simp
  have 2: "n mod 86400000000 mod 1000000 = n mod 1000000" for n :: nat
    by (simp add: mod_mod_cancel)
  from assms lex_divmod [of 86400000000 t t']
  have "t div 86400000000 < t' div 86400000000 \<or>
        t div 86400000000 = t' div 86400000000 \<and> t mod 86400000000 < t' mod 86400000000"
    by simp
  with lex_divmod [of 1000000 "t mod 86400000000" "t' mod 86400000000"]
  show ?thesis by (simp add: 1 2)
qed

lemma isoformat_strict_mono:
  assumes "t < t'" and "t' < MAXUS"
  shows "isoformat t < isoformat t'"
proof -
  have f: "t' mod 1000000 < 1000000" by simp
  from instant_parts [OF assms(1)] show ?thesis
  proof (elim disjE conjE)
    assume "t div 86400000000 < t' div 86400000000"
    from date_text_less [OF this day_number_bound [OF assms(2)]]
    show ?thesis by (simp add: isoformat_def append_less_same_length)
  next
    assume d: "t div 86400000000 = t' div 86400000000"
      and "t div 1000000 mod 86400 < t' div 1000000 mod 86400"
    from time_text_less [OF this(2)] d
    show ?thesis by (simp add: isoformat_def date_text_def append_less_same_length)
  next
    assume d: "t div 86400000000 = t' div 86400000000"
      and s: "t div 1000000 mod 86400 = t' div 1000000 mod 86400"
      and "t mod 1000000 < t' mod 1000000"
    from fraction_less [OF this(3) f] d s
    show ?thesis
      by (simp add: isoformat_def date_text_def time_text_def Let_def append_less_same_length)
  qed
qed

lemma isoformat_less_iff:
  assumes "t < MAXUS" and "t' < MAXUS"
  shows "(isoformat t < isoformat t') = (t < t')"
proof (cases t t' rule: linorder_cases)
  case less
  with isoformat_strict_mono [OF less assms(2)] show ?thesis by simp
next
  case equal
  then show ?thesis by simp
next
  case greater
  from isoformat_strict_mono [OF greater assms(1)] have "\<not> isoformat t < isoformat t'"
    by (rule less_asym) simp
  with greater show ?thesis by simp
qed

lemma isoformat_le_iff:
  assumes "t < MAXUS" and "t' < MAXUS"
  shows "(isoformat t \<le> isoformat t') = (t \<le> t')"
proof -
  have "(isoformat t \<le> isoformat t') = (\<not> isoformat t' < isoformat t)"
    by (rule linorder_not_less [symmetric])
  also have "\<dots> = (\<not> t' < t)" by (simp only: isoformat_less_iff [OF assms(2,1)])
  also have "\<dots> = (t \<le> t')" by (rule linorder_not_less)
  finally show ?thesis .
qed

lemma date_text_less_iff:
  assumes "t < MAXUS" and "t' < MAXUS"
  shows "(date_text t < date_text t') = (t div 86400000000 < t' div 86400000000)"
proof (cases "t div 86400000000" "t' div 86400000000" rule: linorder_cases)
  case less
  with date_text_less [OF less day_number_bound [OF assms(2)]] show ?thesis by simp
next
  case equal
  then show ?thesis by (simp add: date_text_def)
next
  case greater
  from date_text_less [OF greater day_number_bound [OF assms(1)]]
  have "\<not> date_text t < date_text t'" by (rule less_asym) simp
  with greater show ?thesis by simp
qed

lemma isoformat_less_sqlite:
  assumes "t < MAXUS" and "u < MAXUS"
  shows "(isoformat t < sqlite_datetime u) = (t div 86400000000 < u div 86400000000)"
proof -
  have "(isoformat t < sqlite_datetime u) = (date_text t < date_text u)"
    by (simp add: isoformat_def sqlite_datetime_def append_less_same_length)
  with date_text_less_iff [OF assms] show ?thesis by simp
qed

lemma isoformat_eq_iff:
  assumes "t < MAXUS" and "t' < MAXUS"
  shows "(isoformat t = isoformat t') = (t = t')"
proof
  assume e: "isoformat t = isoformat t'"
  show "t = t'"
  proof (cases t t' rule: linorder_cases)
    case less
    from isoformat_strict_mono [OF less assms(2)] e show ?thesis by simp
  next
    case equal
    then show ?thesis .
  next
    case greater
    from isoformat_strict_mono [OF greater assms(1)] e show ?thesis by simp
  qed
qed simp

section \<open>The store's primary key\<close>

lemma pk_enqueue: "pk rows \<Longrightarrow> pk (snd (enqueue job rows))"
  by (auto simp: pk_def enqueue_def)

lemma pk_same_id:
  "pk rows \<Longrightarrow> r \<in> set rows \<Longrightarrow> row \<in> set rows \<Longrightarrow> job_id r = job_id row \<Longrightarrow> r = row"
  by (auto simp: pk_def distinct_map inj_on_def)

lemma find_pk:
  "pk rows \<Longrightarrow> row \<in> set rows \<Longrightarrow> find (\<lambda>r. job_id r = job_id row) rows = Some row"
proof -
  assume p: "pk rows" and m: "row \<in> set rows"
  then obtain r where f: "find (\<lambda>r. job_id r = job_id row) rows = Some r"
    by (cases "find (\<lambda>r. job_id r = job_id row) rows") (auto simp: find_None_iff)
  then have "r \<in> set rows" "job_id r = job_id row"
    by (auto simp: find_Some_iff)
  with p m have "r = row" by (rule_tac pk_same_id)
  with f show ?thesis by simp
qed

lemma get_job_pk:
  "pk rows \<Longrightarrow> row \<in> set rows \<Longrightarrow> get_job (job_id row) rows = Some (row_to_job row)"
  by (simp add: get_job_def find_pk)

lemma job_id_lock_row [simp]: "job_id (lock_row w now r) = job_id r"
  by (simp add: lock_row_def)

lemma job_id_row_to_job [simp]: "job_id (row_to_job r) = job_id r"
  by (simp add: row_to_job_def)

lemma map_ids_unchanged:
  "(\<And>r. job_id (g r) = job_id r) \<Longrightarrow>
     map job_id (map (\<lambda>r. if P r then g r else r) rows) = map job_id rows"
  by (induction rows) auto

lemma pk_map_if:
  "(\<And>r. job_id (g r) = job_id r) \<Longrightarrow> pk (map (\<lambda>r. if P r then g r else r) rows) = pk rows"
  unfolding pk_def by (simp only: map_ids_unchanged)

lemma map_if_pk:
  assumes "pk rows" and "row \<in> set rows"
  shows "map (\<lambda>r. if job_id r = job_id row then g r else r) rows =
         map (\<lambda>r. if r = row then g row else r) rows"
  using assms by (intro map_cong) (auto dest: pk_same_id)

text \<open>Every operation of the store keeps the ids as they are.\<close>

lemma pk_Nil: "pk []"
  by (simp add: pk_def)

lemma pk_update_job: "pk (snd (update_job t job rows)) = pk rows"
  by (simp add: update_job_def pk_map_if write_job_def)

lemma pk_lock_and_fetch: "pk (snd (lock_and_fetch w now i rows)) = pk rows"
  by (simp add: lock_and_fetch_def Let_def pk_map_if)

lemma pk_acquire_job: "pk (snd (acquire_job tie w now sql_now rows)) = pk rows"
  by (simp add: acquire_job_def Let_def pk_map_if split: option.splits)

lemma pk_clear_locks: "pk (clear_locks worker_id sql_now rows) = pk rows"
  by (simp add: clear_locks_def pk_map_if unlock_row_def)

section \<open>Selecting and locking a row\<close>

lemma sort_key_head:
  assumes "sort_key f xs = x # ys"
  shows "x \<in> set xs \<and> (\<forall>y\<in>set xs. f x \<le> f y)"
proof -
  have s: "set (sort_key f xs) = set xs" by simp
  have "sorted (map f (sort_key f xs))" by (rule sorted_sort_key)
  with assms have le: "\<forall>y\<in>set ys. f x \<le> f y" by simp
  have x: "x \<in> set xs" using s assms by auto
  have all: "\<forall>y\<in>set xs. f x \<le> f y" using s assms le by auto
  with x show ?thesis by simp
qed

text \<open>
  Whichever row the engine delivers, it passes the WHERE clause and no row that passes
  has a smaller \<open>created_at\<close> text.
\<close>

lemma select_next_Some:
  assumes "select_next tie now_s thr rows = Some row"
  shows "row \<in> set rows \<and> acquirable now_s thr row \<and>
         (\<forall>r\<in>set rows. acquirable now_s thr r \<longrightarrow>
            isoformat (created_at row) \<le> isoformat (created_at r))"
proof -
  let ?f = "\<lambda>r. isoformat (created_at r)"
  let ?c = "filter (acquirable now_s thr) rows"
  from assms obtain x ys where s: "sort_key ?f ?c = x # ys"
    by (auto simp: select_next_def split: list.splits)
  define l where "l = filter (\<lambda>r. ?f r = ?f x) (x # ys)"
  from assms have r: "row = l ! (tie mod length l)"
    unfolding select_next_def s l_def by (simp add: Let_def)
  have "x \<in> set l" by (simp add: l_def)
  then have "0 < length l" by (cases l) auto
  then have "tie mod length l < length l" by simp
  then have "row \<in> set l" unfolding r by (rule nth_mem)
  then have m: "row \<in> set (x # ys)" and e: "?f row = ?f x" by (auto simp: l_def)
  have q: "set (x # ys) = set ?c" unfolding s [symmetric] by (rule set_sort)
  have c: "row \<in> set ?c" using m q by blast
  from sort_key_head [OF s] have "\<forall>y\<in>set ?c. ?f x \<le> ?f y" by simp
  with c e show ?thesis by auto
qed

lemma select_next_None:
  "select_next tie now_s thr rows = None \<longleftrightarrow> (\<forall>r\<in>set rows. \<not> acquirable now_s thr r)"
proof -
  let ?c = "filter (acquirable now_s thr) rows"
  let ?s = "sort_key (\<lambda>r. isoformat (created_at r)) ?c"
  have "select_next tie now_s thr rows = None \<longleftrightarrow> ?s = []"
    by (simp add: select_next_def Let_def split: list.splits)
  also have "\<dots> \<longleftrightarrow> set ?s = {}" by (simp only: set_empty)
  also have "\<dots> \<longleftrightarrow> set ?c = {}" by (simp only: set_sort)
  also have "\<dots> \<longleftrightarrow> (\<forall>r\<in>set rows. \<not> acquirable now_s thr r)" by auto
  finally show ?thesis .
qed

text \<open>
  With two rows tied, either can be the one delivered: here the row listed first for
  an even \<open>tie\<close>, the other for an odd one.
\<close>

lemma select_next_tie:
  "select_next 0 (isoformat noon) (stale_threshold noon) [row_b, row_a] = Some row_b \<and>
   select_next 1 (isoformat noon) (stale_threshold noon) [row_b, row_a] = Some row_a"
  by (simp add: select_next_def acquirable_def lock_free_def row_A_def row_a_def row_b_def)

lemma locked_row_pk:
  assumes "pk rows" and m: "row \<in> set rows"
  shows "map (\<lambda>r. if job_id r = job_id row then lock_row w now r else r) rows =
           map (\<lambda>r. if r = row then lock_row w now row else r) rows \<and>
         find (\<lambda>r. job_id r = job_id row)
           (map (\<lambda>r. if job_id r = job_id row then lock_row w now r else r) rows) =
           Some (lock_row w now row)"
proof -
  let ?rows = "map (\<lambda>r. if job_id r = job_id row then lock_row w now r else r) rows"
  have e: "?rows = map (\<lambda>r. if r = row then lock_row w now row else r) rows"
    using assms(1) m by (rule map_if_pk)
  have p: "pk ?rows" using assms(1) by (simp only: pk_map_if job_id_lock_row)
  have "lock_row w now row \<in> set ?rows" using m by (auto simp: e)
  from find_pk [OF p this]
  have "find (\<lambda>r. job_id r = job_id row) ?rows = Some (lock_row w now row)"
    by simp
  with e show ?thesis by simp
qed

lemma lock_and_fetch_pk:
  assumes "pk rows" and m: "row \<in> set rows"
  shows "lock_and_fetch w now (job_id row) rows =
           (Inr (Some (row_to_job (lock_row w now row))),
            map (\<lambda>r. if r = row then lock_row w now row else r) rows)"
  using locked_row_pk [OF assms, of w now]
  by (simp add: lock_and_fetch_def Let_def)

lemma acquire_job_selected:
  assumes "pk rows"
    and s: "select_next tie (isoformat now) (stale_threshold sql_now) rows = Some row"
  shows "acquire_job tie w now sql_now rows =
           (Some (row_to_job (lock_row w now row)),
            map (\<lambda>r. if r = row then lock_row w now row else r) rows)"
proof -
  from s have m: "row \<in> set rows" using select_next_Some by blast
  from s locked_row_pk [OF assms(1) m, of w now] show ?thesis
    by (simp add: acquire_job_def Let_def get_job_def)
qed

text \<open>
  \<open>acquire_job\<close> is its SELECT followed by \<open>lock_and_fetch\<close> on the id of the row
  delivered; the row is in the table, so the read-back finds it.
\<close>

lemma acquire_job_steps:
  assumes "select_next tie (isoformat now) (stale_threshold sql_now) rows = Some row"
  shows "lock_and_fetch w now (job_id row) rows =
           (Inr (fst (acquire_job tie w now sql_now rows)),
            snd (acquire_job tie w now sql_now rows))"
proof -
  let ?rows = "map (\<lambda>r. if job_id r = job_id row then lock_row w now r else r) rows"
  from assms have "row \<in> set rows" using select_next_Some by blast
  then have "lock_row w now row \<in> set ?rows" by force
  then have "find (\<lambda>r. job_id r = job_id row) ?rows \<noteq> None"
    by (auto simp: find_None_iff)
  then obtain r where "find (\<lambda>r. job_id r = job_id row) ?rows = Some r"
    by blast
  with assms show ?thesis
    by (simp add: acquire_job_def lock_and_fetch_def Let_def get_job_def)
qed

lemma acquire_job_None:
  "select_next tie (isoformat now) (stale_threshold sql_now) rows = None \<Longrightarrow>
     acquire_job tie w now sql_now rows = (None, rows)"
  by (simp add: acquire_job_def)

lemma acquire_job_Some:
  assumes "pk rows" and "acquire_job tie w now sql_now rows = (Some job, rows')"
  shows "\<exists>row. select_next tie (isoformat now) (stale_threshold sql_now) rows = Some row \<and>
           job = row_to_job (lock_row w now row) \<and>
           rows' = map (\<lambda>r. if r = row then lock_row w now row else r) rows"
proof (cases "select_next tie (isoformat now) (stale_threshold sql_now) rows")
  case None
  with assms(2) show ?thesis by (simp add: acquire_job_None)
next
  case (Some row)
  with assms(2) acquire_job_selected [OF assms(1) Some, of w] show ?thesis by simp
qed

text \<open>
  The two WHERE clauses read as conditions on instants, for columns that hold datetimes.
  The lease test compares calendar days: a lease counts as stale once its day lies
  before the day of the instant five minutes ago.
\<close>

lemma lock_free_iff:
  assumes "sql_now < MAXUS" and "\<And>t. locked_at r = Some t \<Longrightarrow> t < MAXUS"
  shows "lock_free (stale_threshold sql_now) r =
           (locked_by r = None \<or>
            (\<exists>t. locked_at r = Some t \<and>
                 t div 86400000000 < (sql_now - 5 * 60 * 1000000) div 86400000000))"
proof -
  have "sql_now - 5 * 60 * 1000000 < MAXUS" using assms(1) by simp
  with assms(2) show ?thesis
    by (auto simp: lock_free_def stale_threshold_def isoformat_less_sqlite split: option.splits)
qed

lemma acquirable_iff:
  assumes "now < MAXUS" and "sql_now < MAXUS"
    and "\<And>t. next_retry_at r = Some t \<Longrightarrow> t < MAXUS"
    and "\<And>t. locked_at r = Some t \<Longrightarrow> t < MAXUS"
  shows "acquirable (isoformat now) (stale_threshold sql_now) r =
           ((state r = PENDING \<or> state r = FAILED \<and> (\<exists>t. next_retry_at r = Some t \<and> t \<le> now)) \<and>
            (locked_by r = None \<or>
             (\<exists>t. locked_at r = Some t \<and>
                  t div 86400000000 < (sql_now - 5 * 60 * 1000000) div 86400000000)))"
proof -
  have nr: "(case next_retry_at r of None \<Rightarrow> False | Some t \<Rightarrow> isoformat t \<le> isoformat now) =
        (\<exists>t. next_retry_at r = Some t \<and> t \<le> now)"
    using assms(1,3) by (auto simp: isoformat_le_iff split: option.splits)
  have lf: "lock_free (stale_threshold sql_now) r =
           (locked_by r = None \<or>
            (\<exists>t. locked_at r = Some t \<and>
                 t div 86400000000 < (sql_now - 5 * 60 * 1000000) div 86400000000))"
    using assms(2,4) by (rule lock_free_iff)
  show ?thesis
    unfolding acquirable_def nr lf by blast
qed

lemma lease_expired_iff:
  assumes "sql_now < MAXUS" and "\<And>t. locked_at r = Some t \<Longrightarrow> t < MAXUS"
  shows "lease_expired (stale_threshold sql_now) r =
           (state r = PROCESSING \<and>
            (\<exists>t. locked_at r = Some t \<and>
                 t div 86400000000 < (sql_now - 5 * 60 * 1000000) div 86400000000))"
proof -
  have "sql_now - 5 * 60 * 1000000 < MAXUS" using assms(1) by simp
  with assms(2) show ?thesis
    by (auto simp: lease_expired_def stale_threshold_def isoformat_less_sqlite split: option.splits)
qed

lemma not_acquirable_processing: "state r = PROCESSING \<Longrightarrow> \<not> acquirable now_s thr r"
  by (simp add: acquirable_def)

text \<open>
  Two acquires, one after the other: the second cannot return the job of the first,
  whose row is in state PROCESSING by then.
\<close>

lemma acquire_job_serial:
  assumes "pk rows" and a1: "acquire_job tie1 w1 now1 sql1 rows = (Some job1, rows1)"
    and a2: "acquire_job tie2 w2 now2 sql2 rows1 = (Some job2, rows2)"
  shows "job_id job1 \<noteq> job_id job2"
proof -
  from acquire_job_Some [OF assms(1) a1] obtain row where
    s1: "select_next tie1 (isoformat now1) (stale_threshold sql1) rows = Some row" and
    j1: "job1 = row_to_job (lock_row w1 now1 row)" and
    r1: "rows1 = map (\<lambda>r. if r = row then lock_row w1 now1 row else r) rows"
    by blast
  from s1 have m: "row \<in> set rows" using select_next_Some by blast
  have p1: "pk rows1"
    unfolding r1 map_if_pk [OF assms(1) m, symmetric] using assms(1)
    by (simp only: pk_map_if job_id_lock_row)
  from acquire_job_Some [OF p1 a2] obtain row2 where
    s2: "select_next tie2 (isoformat now2) (stale_threshold sql2) rows1 = Some row2" and
    j2: "job2 = row_to_job (lock_row w2 now2 row2)"
    by blast
  from select_next_Some [OF s2] have m2: "row2 \<in> set rows1"
    and q: "acquirable (isoformat now2) (stale_threshold sql2) row2" by simp_all
  have "\<not> acquirable (isoformat now2) (stale_threshold sql2) (lock_row w1 now1 row)"
    by (rule not_acquirable_processing) (simp add: lock_row_def)
  with q have "row2 \<noteq> lock_row w1 now1 row" by auto
  with m2 have "row2 \<in> set rows" "row2 \<noteq> row" unfolding r1 by (auto split: if_splits)
  with assms(1) m have "job_id row2 \<noteq> job_id row" by (auto dest: pk_same_id)
  then show ?thesis by (simp add: j1 j2)
qed

text \<open>
  Two acquires whose SELECTs both run before either UPDATE, and deliver the same row:
  the UPDATE of each call finds the row by its id, whatever state the row is in by
  then, so both calls return the job, and the row ends with the lease of the second.
\<close>

lemma acquire_job_interleaved_same_row:
  assumes "pk rows"
    and s1: "select_next tie1 (isoformat now1) (stale_threshold sql1) rows = Some row"
    and s2: "select_next tie2 (isoformat now2) (stale_threshold sql2) rows = Some row"
  shows "acquire_job_interleaved tie1 w1 now1 sql1 tie2 w2 now2 sql2 rows =
           (Inr (Some (row_to_job (lock_row w1 now1 row))),
            Inr (Some (row_to_job (lock_row w2 now2 row))),
            map (\<lambda>r. if r = row then lock_row w2 now2 row else r) rows)"
proof -
  let ?rows1 = "map (\<lambda>r. if r = row then lock_row w1 now1 row else r) rows"
  from s1 have m: "row \<in> set rows" using select_next_Some by blast
  have l1: "lock_and_fetch w1 now1 (job_id row) rows =
              (Inr (Some (row_to_job (lock_row w1 now1 row))), ?rows1)"
    using assms(1) m by (rule lock_and_fetch_pk)
  have p1: "pk ?rows1"
    unfolding map_if_pk [OF assms(1) m, symmetric] using assms(1)
    by (simp only: pk_map_if job_id_lock_row)
  have m1: "lock_row w1 now1 row \<in> set ?rows1" using m by auto
  have e: "lock_row w2 now2 (lock_row w1 now1 row) = lock_row w2 now2 row"
    by (simp add: lock_row_def)
  have "(if (if r = row then lock_row w1 now1 row else r) = lock_row w1 now1 row
         then lock_row w2 now2 row
         else (if r = row then lock_row w1 now1 row else r)) =
        (if r = row then lock_row w2 now2 row else r)" if "r \<in> set rows" for r
  proof (cases "r = row")
    case True
    then show ?thesis by simp
  next
    case False
    with assms(1) m that have "job_id r \<noteq> job_id row" by (auto dest: pk_same_id)
    then have "r \<noteq> lock_row w1 now1 row" by auto
    with False show ?thesis by simp
  qed
  then have r2: "map (\<lambda>r. if r = lock_row w1 now1 row then lock_row w2 now2 row else r) ?rows1 =
        map (\<lambda>r. if r = row then lock_row w2 now2 row else r) rows"
    by (simp add: comp_def)
  from lock_and_fetch_pk [OF p1 m1, of w2 now2]
  have l2: "lock_and_fetch w2 now2 (job_id row) ?rows1 =
              (Inr (Some (row_to_job (lock_row w2 now2 row))),
               map (\<lambda>r. if r = row then lock_row w2 now2 row else r) rows)"
    by (simp only: job_id_lock_row e r2)
  show ?thesis
    by (simp add: acquire_job_interleaved_def s1 s2 l1 l2)
qed

text \<open>
  C1. Two worker processes acquire from a table that holds the one pending job A, and
  both SELECTs run before either UPDATE. The specification requires that the two calls
  return distinct jobs, or that one returns nothing. Both calls return job A: the first as
  locked by \<open>worker-1\<close>, the second as locked by \<open>worker-2\<close>, and the row's \<open>locked_by\<close>
  goes from the one to the other while both workers run the job.
\<close>

theorem concurrent_acquire_same_job:
  "acquire_job_interleaved 0 ''worker-1'' noon noon 0 ''worker-2'' (noon + 100) (noon + 100)
       [row_A] =
     (Inr (Some (row_to_job (row_A\<lparr>locked_by := Some ''worker-1'', locked_at := Some noon,
                                    state := PROCESSING\<rparr>))),
      Inr (Some (row_to_job (row_A\<lparr>locked_by := Some ''worker-2'',
                                    locked_at := Some (noon + 100), state := PROCESSING\<rparr>))),
      [row_A\<lparr>locked_by := Some ''worker-2'', locked_at := Some (noon + 100),
             state := PROCESSING\<rparr>]) \<and>
   job_id (row_to_job (row_A\<lparr>locked_by := Some ''worker-1'', locked_at := Some noon,
                               state := PROCESSING\<rparr>)) = ''A'' \<and>
   job_id (row_to_job (row_A\<lparr>locked_by := Some ''worker-2'', locked_at := Some (noon + 100),
                               state := PROCESSING\<rparr>)) = ''A''"
  by (simp add: acquire_job_interleaved_def select_next_def lock_and_fetch_def acquirable_def
      lock_free_def row_A_def lock_row_def row_to_job_def)

lemma acquire_row_A:
  "acquire_job tie ''worker-1'' noon noon [row_A] =
     (Some (row_to_job (row_A\<lparr>locked_by := Some ''worker-1'', locked_at := Some noon,
                               state := PROCESSING\<rparr>)),
      [row_A\<lparr>locked_by := Some ''worker-1'', locked_at := Some noon, state := PROCESSING\<rparr>])"
  by (simp add: acquire_job_def select_next_def acquirable_def lock_free_def
      row_A_def lock_row_def get_job_def)

text \<open>
  C4 (as amended). A successful \<open>acquire_job\<close> changes one row, the selected one, and
  there only \<open>state\<close> (to PROCESSING), \<open>locked_by\<close> (to the caller) and \<open>locked_at\<close> (to the
  clock reading \<open>now\<close>). \<open>updated_at\<close> keeps its value, as do \<open>attempts\<close>, \<open>next_retry_at\<close>,
  \<open>command\<close>, \<open>created_at\<close>, \<open>max_retries\<close> and \<open>error_message\<close>; the job returned is that row.
\<close>

theorem acquire_job_frame:
  assumes "pk rows" and "acquire_job tie w now sql_now rows = (Some job, rows')"
  shows "\<exists>row\<in>set rows.
           rows' = map (\<lambda>r. if r = row
                         then row\<lparr>locked_by := Some w, locked_at := Some now, state := PROCESSING\<rparr>
                         else r) rows \<and>
           job = row_to_job (row\<lparr>locked_by := Some w, locked_at := Some now, state := PROCESSING\<rparr>) \<and>
           job_id job = job_id row \<and> command job = command row \<and>
           attempts job = attempts row \<and> max_retries job = max_retries row \<and>
           created_at job = created_at row \<and> updated_at job = updated_at row \<and>
           next_retry_at job = next_retry_at row \<and> error_message job = error_message row"
proof (cases "select_next tie (isoformat now) (stale_threshold sql_now) rows")
  case None
  with assms(2) show ?thesis by (simp add: acquire_job_None)
next
  case (Some row)
  then have "row \<in> set rows" using select_next_Some by blast
  moreover note acquire_job_selected [OF assms(1) Some, of w]
  ultimately show ?thesis using assms(2)
    by (intro bexI [of _ row]) (auto simp: lock_row_def row_to_job_def)
qed

theorem acquire_job_frame_witness:
  "pk [row_A] \<and>
   (\<exists>row\<in>set [row_A].
      snd (acquire_job 0 ''worker-1'' noon noon [row_A]) =
        map (\<lambda>r. if r = row
                  then row\<lparr>locked_by := Some ''worker-1'', locked_at := Some noon,
                           state := PROCESSING\<rparr>
                  else r) [row_A] \<and>
      map_option updated_at (fst (acquire_job 0 ''worker-1'' noon noon [row_A])) =
        Some (updated_at row))"
proof -
  have p: "pk [row_A]" by (simp add: pk_def)
  from acquire_job_frame [OF p acquire_row_A [of 0]] p show ?thesis
    by (simp add: acquire_row_A)
qed

theorem acquire_updated_at_counterexample:
  "acquire_job 0 ''worker-1'' noon noon [row_A] =
     (Some (row_to_job (row_A\<lparr>locked_by := Some ''worker-1'', locked_at := Some noon,
                               state := PROCESSING\<rparr>)),
      [row_A\<lparr>locked_by := Some ''worker-1'', locked_at := Some noon, state := PROCESSING\<rparr>]) \<and>
   updated_at (row_A\<lparr>locked_by := Some ''worker-1'', locked_at := Some noon,
                      state := PROCESSING\<rparr>) = noon - minutes 60 \<and>
   noon - minutes 60 \<noteq> noon"
  by (simp add: acquire_row_A) (simp add: row_A_def noon_def minutes_def)

text \<open>
  C5 (as amended). When at least one row passes the WHERE clause, \<open>acquire_job\<close> returns
  a row that passes it and whose \<open>created_at\<close> is the least among the rows that pass, in
  the order of the stored texts and so, for datetimes, the earliest. This holds
  whichever of the rows with that \<open>created_at\<close> the engine delivers; the ids play no part
  in the choice.
\<close>

theorem acquire_job_order:
  assumes "pk rows" and "\<forall>r\<in>set rows. created_at r < MAXUS" and "r0 \<in> set rows"
    and "acquirable (isoformat now) (stale_threshold sql_now) r0"
  shows "\<exists>row\<in>set rows.
           map_option job_id (fst (acquire_job tie w now sql_now rows)) = Some (job_id row) \<and>
           acquirable (isoformat now) (stale_threshold sql_now) row \<and>
           (\<forall>r\<in>set rows. acquirable (isoformat now) (stale_threshold sql_now) r \<longrightarrow>
              isoformat (created_at row) \<le> isoformat (created_at r) \<and>
              created_at row \<le> created_at r)"
proof -
  let ?q = "acquirable (isoformat now) (stale_threshold sql_now)"
  from assms(3,4) obtain row where
    s: "select_next tie (isoformat now) (stale_threshold sql_now) rows = Some row"
    using select_next_None [of tie "isoformat now" "stale_threshold sql_now" rows] by fastforce
  note n = select_next_Some [OF s]
  from n have m: "row \<in> set rows" by simp
  have j: "map_option job_id (fst (acquire_job tie w now sql_now rows)) = Some (job_id row)"
    by (simp add: acquire_job_selected [OF assms(1) s] row_to_job_def)
  have le: "isoformat (created_at row) \<le> isoformat (created_at r) \<and>
            created_at row \<le> created_at r" if "r \<in> set rows" "?q r" for r
  proof -
    from n that have "isoformat (created_at row) \<le> isoformat (created_at r)" by blast
    with assms(2) m that(1) show ?thesis by (simp add: isoformat_le_iff)
  qed
  from m j n le show ?thesis by blast
qed

theorem acquire_job_order_witness:
  "pk [row_b, row_a] \<and> created_at row_b < MAXUS \<and> created_at row_a < MAXUS \<and>
   row_a \<in> set [row_b, row_a] \<and>
   acquirable (isoformat noon) (stale_threshold noon) row_a \<and>
   (\<exists>row\<in>set [row_b, row_a].
      map_option job_id (fst (acquire_job 0 ''worker-1'' noon noon [row_b, row_a])) =
        Some (job_id row) \<and>
      created_at row \<le> created_at row_a)"
proof -
  have p: "pk [row_b, row_a]" by (simp add: pk_def row_a_def row_b_def)
  have v: "created_at row_b < MAXUS" "created_at row_a < MAXUS"
    by (simp_all add: row_a_def row_b_def row_A_def noon_def minutes_def MAXUS_def)
  then have v': "\<forall>r\<in>set [row_b, row_a]. created_at r < MAXUS" by simp
  have m: "row_a \<in> set [row_b, row_a]" by simp
  have q: "acquirable (isoformat noon) (stale_threshold noon) row_a"
    by (simp add: acquirable_def lock_free_def row_a_def row_A_def)
  from acquire_job_order [OF p v' m q, of 0 "''worker-1''"] obtain row where
    "row \<in> set [row_b, row_a]"
    "map_option job_id (fst (acquire_job 0 ''worker-1'' noon noon [row_b, row_a])) =
       Some (job_id row)"
    "\<forall>r\<in>set [row_b, row_a]. acquirable (isoformat noon) (stale_threshold noon) r \<longrightarrow>
       created_at row \<le> created_at r"
    by blast
  with p v m q show ?thesis by blast
qed

theorem acquire_tie_counterexample:
  "map_option job_id (fst (acquire_job 0 ''worker-1'' noon noon [row_b, row_a])) = Some ''b'' \<and>
   acquirable (isoformat noon) (stale_threshold noon) row_a \<and>
   created_at row_a = created_at row_b \<and> job_id row_a = ''a'' \<and> ''a'' < ''b''"
  by (simp add: acquire_job_def select_next_def acquirable_def lock_free_def
      row_A_def row_a_def row_b_def lock_row_def get_job_def row_to_job_def)

text \<open>
  C2 (as amended). A row in state PROCESSING is never the one \<open>acquire_job\<close> returns,
  however old its lease, and \<open>acquire_job\<close> leaves it as it is.
\<close>

theorem processing_job_not_acquired:
  assumes "pk rows" and "r \<in> set rows" and "state r = PROCESSING"
  shows "map_option job_id (fst (acquire_job tie w now sql_now rows)) \<noteq> Some (job_id r) \<and>
         r \<in> set (snd (acquire_job tie w now sql_now rows))"
proof (intro conjI)
  show "map_option job_id (fst (acquire_job tie w now sql_now rows)) \<noteq> Some (job_id r)"
  proof (cases "select_next tie (isoformat now) (stale_threshold sql_now) rows")
    case None
    then show ?thesis by (simp add: acquire_job_None)
  next
    case (Some row)
    from select_next_Some [OF Some] assms(3) have "row \<in> set rows" "row \<noteq> r"
      by (auto dest: not_acquirable_processing)
    with assms(1,2) have "job_id row \<noteq> job_id r" by (auto dest: pk_same_id)
    then show ?thesis
      by (simp add: acquire_job_selected [OF assms(1) Some] row_to_job_def)
  qed
  show "r \<in> set (snd (acquire_job tie w now sql_now rows))"
  proof (cases "select_next tie (isoformat now) (stale_threshold sql_now) rows")
    case None
    then show ?thesis using assms(2) by (simp add: acquire_job_None)
  next
    case (Some row)
    from select_next_Some [OF Some] assms(3) have "row \<noteq> r"
      by (auto dest: not_acquirable_processing)
    then show ?thesis using assms(2)
      by (auto simp: acquire_job_selected [OF assms(1) Some])
  qed
qed

theorem processing_job_not_acquired_witness:
  "pk [row_E, row_A] \<and> row_E \<in> set [row_E, row_A] \<and> state row_E = PROCESSING \<and>
   locked_at row_E = Some (noon - minutes 10) \<and>
   map_option job_id (fst (acquire_job 0 ''live'' noon noon [row_E, row_A])) \<noteq>
     Some (job_id row_E) \<and>
   row_E \<in> set (snd (acquire_job 0 ''live'' noon noon [row_E, row_A]))"
proof -
  have p: "pk [row_E, row_A]" by (simp add: pk_def row_E_def row_A_def)
  have m: "row_E \<in> set [row_E, row_A]" by simp
  have s: "state row_E = PROCESSING" by (simp add: row_E_def)
  have l: "locked_at row_E = Some (noon - minutes 10)" by (simp add: row_E_def)
  from processing_job_not_acquired [OF p m s, of 0 "''live''" noon noon] p m s l
  show ?thesis by simp
qed

theorem stale_processing_counterexample:
  "state row_E = PROCESSING \<and> locked_at row_E = Some (noon - minutes 10) \<and>
   acquire_job 0 ''live'' noon noon [row_E] = (None, [row_E])"
  by (simp add: row_E_def acquire_job_def select_next_def acquirable_def)

text \<open>
  \<open>clear_locks\<close> compares two texts of different form: at the eleventh character
  \<open>isoformat\<close> has \<open>T\<close> where SQLite has a space, so a lease taken on the same calendar
  day as the threshold never compares below it (\<open>lease_expired_iff\<close>).
\<close>

lemma clear_locks_same_day:
  "clear_locks None noon [row_E] = [row_E]"
  by (simp add: clear_locks_def lease_expired_def row_E_def iso_noon10 thr_noon)

section \<open>The worker's cycle\<close>

lemma update_job_pk:
  assumes "pk rows" and "row \<in> set rows" and "job_id job' = job_id row"
  shows "update_job t job' rows =
           (True, map (\<lambda>r. if r = row then write_job t job' row else r) rows)"
proof -
  have "map (\<lambda>r. if job_id r = job_id job' then write_job t job' r else r) rows =
        map (\<lambda>r. if r = row then write_job t job' row else r) rows"
    unfolding assms(3) using assms(1,2) by (rule map_if_pk)
  moreover have "job_id job' \<in> set (map job_id rows)"
    using assms(2,3) by (force simp: image_iff)
  ultimately show ?thesis by (simp add: update_job_def)
qed

lemma update_after_lock:
  assumes "pk rows" and "row \<in> set rows" and "job_id job' = job_id row"
  shows "update_job t job' (map (\<lambda>r. if r = row then lock_row w now row else r) rows) =
           (True, map (\<lambda>r. if r = row then write_job t job' row else r) rows)"
proof -
  have w: "write_job t job' (lock_row w now row) = write_job t job' row"
    by (simp add: write_job_def lock_row_def)
  have "(if job_id (if r = row then lock_row w now row else r) = job_id job'
         then write_job t job' (if r = row then lock_row w now row else r)
         else (if r = row then lock_row w now row else r)) =
        (if r = row then write_job t job' row else r)" if "r \<in> set rows" for r
    using that assms w by (auto dest: pk_same_id)
  then have "map (\<lambda>r. if job_id r = job_id job' then write_job t job' r else r)
               (map (\<lambda>r. if r = row then lock_row w now row else r) rows) =
             map (\<lambda>r. if r = row then write_job t job' row else r) rows"
    by (simp add: comp_def)
  moreover have "job_id job' \<in> set (map job_id (map (\<lambda>r. if r = row then lock_row w now row else r) rows))"
    using assms(2,3) by (force simp: image_iff)
  ultimately show ?thesis by (simp add: update_job_def)
qed

lemma select_row_F:
  "select_next tie (isoformat noon) (stale_threshold noon) [row_F] = Some row_F"
proof -
  have "isoformat (noon - minutes 1) = ''2024-11-04T11:59:00''"
    by (simp add: noon_def minutes_def text_defs)
  then show ?thesis
    by (simp add: select_next_def acquirable_def lock_free_def row_F_def iso_noon)
qed

lemma acquire_row_F:
  "acquire_job tie ''worker-1'' noon noon [row_F] =
     (Some (row_to_job (lock_row ''worker-1'' noon row_F)), [lock_row ''worker-1'' noon row_F])"
proof -
  have p: "pk [row_F]" by (simp add: pk_def)
  from acquire_job_selected [OF p select_row_F, of tie "''worker-1''"] show ?thesis
    by simp
qed

lemma in_range_noon:
  "0 \<le> int (noon + 1100) + 2 ^ nat (1 + 1) * 1000000 \<and>
   int (noon + 1100) + 2 ^ nat (1 + 1) * 1000000 < int MAXUS"
  by (simp add: noon_def MAXUS_def)

text \<open>
  C3 (as amended). When the run of an acquired job succeeds, the cycle changes the job's
  row to state COMPLETED, stamps \<open>updated_at\<close> and clears the lease; \<open>error_message\<close> is
  written back as the job carried it when it was acquired. So a completed job has no
  \<open>error_message\<close> exactly when it had none at the acquire; a job that failed on an earlier
  attempt keeps that attempt's diagnostic.
\<close>

theorem completed_keeps_error_message:
  assumes "pk rows" and "acquire_job tie w now sql_now rows = (Some job, rows1)"
  shows "\<exists>row\<in>set rows.
           job_id row = job_id job \<and> error_message row = error_message job \<and>
           process_next_job fd b str_e tie w now sql_now (True, diag) (t1, t2, t3) (t4, t5, t6)
               rows =
             Inr (map (\<lambda>r. if r = row
                            then row\<lparr>state := COMPLETED, updated_at := t3,
                                     locked_by := None, locked_at := None\<rparr>
                            else r) rows)"
proof -
  from acquire_job_Some [OF assms] obtain row where
    s: "select_next tie (isoformat now) (stale_threshold sql_now) rows = Some row" and
    j: "job = row_to_job (lock_row w now row)" and
    r: "rows1 = map (\<lambda>r. if r = row then lock_row w now row else r) rows"
    by blast
  from s have m: "row \<in> set rows" using select_next_Some by blast
  let ?job = "job\<lparr>state := COMPLETED, updated_at := t1\<rparr>"
  have i: "job_id ?job = job_id row" by (simp add: j)
  have w: "write_job t3 ?job row =
           row\<lparr>state := COMPLETED, updated_at := t3, locked_by := None, locked_at := None\<rparr>"
    by (simp add: write_job_def j row_to_job_def lock_row_def)
  have "process_next_job fd b str_e tie w now sql_now (True, diag) (t1, t2, t3) (t4, t5, t6)
          rows = Inr (snd (update_job t3 ?job rows1))"
    by (simp add: process_next_job_def assms(2) mark_completed_def)
  also have "\<dots> = Inr (map (\<lambda>r. if r = row then write_job t3 ?job row else r) rows)"
    unfolding r update_after_lock [OF assms(1) m i] by simp
  finally show ?thesis using m w
    by (intro bexI [of _ row]) (simp_all add: j row_to_job_def lock_row_def)
qed

theorem completed_keeps_error_message_witness:
  "pk [row_F] \<and>
   (\<exists>row\<in>set [row_F]. error_message row = Some ''Exit code 1'' \<and>
      process_next_job no_float_delay 2 (\<lambda>e. []) 0 ''worker-1'' noon noon (True, None)
          (noon, noon, noon) (noon, noon, noon) [row_F] =
        Inr (map (\<lambda>r. if r = row
                       then row\<lparr>state := COMPLETED, updated_at := noon,
                                locked_by := None, locked_at := None\<rparr>
                       else r) [row_F]))"
proof -
  have p: "pk [row_F]" by (simp add: pk_def)
  have e: "error_message row_F = Some ''Exit code 1''" by (simp add: row_F_def)
  from completed_keeps_error_message [OF p acquire_row_F [of 0],
      of no_float_delay 2 "\<lambda>e. []" None noon noon noon noon noon noon]
    p e show ?thesis by simp
qed

lemma process_row_F:
  "process_next_job no_float_delay 2 (\<lambda>e. []) 0 ''worker-1'' noon noon (True, None)
       (noon, noon, noon) (noon, noon, noon) [row_F] =
     Inr [row_F\<lparr>state := COMPLETED, updated_at := noon\<rparr>]"
  by (simp add: process_next_job_def acquire_row_F mark_completed_def update_job_def
      write_job_def lock_row_def row_to_job_def) (simp add: row_F_def)

theorem completed_error_message_counterexample:
  "state row_F = FAILED \<and>
   process_next_job no_float_delay 2 (\<lambda>e. []) 0 ''worker-1'' noon noon (True, None)
       (noon, noon, noon) (noon, noon, noon) [row_F] =
     Inr [row_F\<lparr>state := COMPLETED, updated_at := noon\<rparr>] \<and>
   error_message (row_F\<lparr>state := COMPLETED, updated_at := noon\<rparr>) = Some ''Exit code 1''"
  by (simp add: process_row_F) (simp add: row_F_def)

text \<open>
  A failed run of an acquired job whose attempt count is not negative, with the retry
  instant a datetime: the whole effect on the table.
\<close>

lemma failed_run:
  assumes "pk rows"
    and s: "select_next tie (isoformat now) (stale_threshold sql_now) rows = Some row"
    and "0 \<le> attempts row"
    and "attempts row + 1 < max_retries row \<Longrightarrow>
           0 \<le> int t2 + b ^ nat (attempts row + 1) * 1000000 \<and>
           int t2 + b ^ nat (attempts row + 1) * 1000000 < int MAXUS"
  shows "process_next_job fd b str_e tie w now sql_now (False, diag) (t1, t2, t3) (t4, t5, t6)
             rows =
           Inr (map (\<lambda>r. if r = row
                then (if max_retries row \<le> attempts row + 1
                      then row\<lparr>attempts := attempts row + 1, error_message := diag,
                               updated_at := t3, state := DEAD, next_retry_at := None,
                               locked_by := None, locked_at := None\<rparr>
                      else row\<lparr>attempts := attempts row + 1, error_message := diag,
                               updated_at := t3, state := FAILED,
                               next_retry_at :=
                                 Some (nat (int t2 + b ^ nat (attempts row + 1) * 1000000)),
                               locked_by := None, locked_at := None\<rparr>)
                else r) rows)"
proof -
  from s have m: "row \<in> set rows" using select_next_Some by blast
  let ?job = "row_to_job (lock_row w now row)"
  let ?rows1 = "map (\<lambda>r. if r = row then lock_row w now row else r) rows"
  let ?job1 = "?job\<lparr>attempts := attempts ?job + 1, error_message := diag, updated_at := t1\<rparr>"
  have a: "acquire_job tie w now sql_now rows = (Some ?job, ?rows1)"
    by (rule acquire_job_selected [OF assms(1) s])
  have at: "attempts ?job = attempts row" and mr: "max_retries ?job = max_retries row"
    by (simp_all add: row_to_job_def lock_row_def)
  show ?thesis
  proof (cases "max_retries row \<le> attempts row + 1")
    case True
    let ?job2 = "?job1\<lparr>state := DEAD, next_retry_at := None\<rparr>"
    have i: "job_id ?job2 = job_id row" by simp
    have h: "handle_failure fd b t1 t2 t3 ?job diag ?rows1 =
               Inr (snd (update_job t3 ?job2 ?rows1))"
      using True by (simp add: handle_failure_def Let_def at mr)
    have "write_job t3 ?job2 row =
          row\<lparr>attempts := attempts row + 1, error_message := diag, updated_at := t3,
              state := DEAD, next_retry_at := None, locked_by := None, locked_at := None\<rparr>"
      by (simp add: write_job_def row_to_job_def lock_row_def)
    with True show ?thesis
      by (simp add: process_next_job_def a h update_after_lock [OF assms(1) m i])
  next
    case False
    let ?d = "b ^ nat (attempts row + 1) * 1000000"
    let ?t = "nat (int t2 + ?d)"
    let ?job2 = "?job1\<lparr>next_retry_at := Some ?t, state := FAILED\<rparr>"
    from False assms(4) have rg: "0 \<le> int t2 + ?d" "int t2 + ?d < int MAXUS" by simp_all
    have i: "job_id ?job2 = job_id row" by simp
    have d: "delay_microseconds fd b (attempts row + 1) = Inr ?d"
      using assms(3) by (simp add: delay_microseconds_def)
    have t: "datetime_add t2 ?d = Inr ?t"
      using rg by (simp add: datetime_add_def)
    have h: "handle_failure fd b t1 t2 t3 ?job diag ?rows1 =
               Inr (snd (update_job t3 ?job2 ?rows1))"
      using False by (simp add: handle_failure_def Let_def at mr d t)
    have "write_job t3 ?job2 row =
          row\<lparr>attempts := attempts row + 1, error_message := diag, updated_at := t3,
              state := FAILED, next_retry_at := Some ?t, locked_by := None, locked_at := None\<rparr>"
      by (simp add: write_job_def row_to_job_def lock_row_def)
    with False show ?thesis
      by (simp add: process_next_job_def a h update_after_lock [OF assms(1) m i])
  qed
qed

text \<open>
  Where the job's count at the acquire is not negative and, in the retry branch, the
  retry instant is a datetime, a failed run stores the job with \<open>attempts\<close> one higher and
  the diagnostic as \<open>error_message\<close>: DEAD with no \<open>next_retry_at\<close> if the new count has
  reached \<open>max_retries\<close>, FAILED with a \<open>next_retry_at\<close> otherwise.
\<close>

lemma failed_run_outcome:
  assumes "pk rows" and "acquire_job tie w now sql_now rows = (Some job, rows1)"
    and "0 \<le> attempts job"
    and "attempts job + 1 < max_retries job \<Longrightarrow>
           0 \<le> int t2 + b ^ nat (attempts job + 1) * 1000000 \<and>
           int t2 + b ^ nat (attempts job + 1) * 1000000 < int MAXUS"
  shows "\<exists>row\<in>set rows. \<exists>row'.
           process_next_job fd b str_e tie w now sql_now (False, diag) (t1, t2, t3) (t4, t5, t6)
               rows =
             Inr (map (\<lambda>r. if r = row then row' else r) rows) \<and>
           job_id row = job_id job \<and> attempts row = attempts job \<and>
           job_id row' = job_id job \<and> max_retries row' = max_retries job \<and>
           attempts row' = attempts job + 1 \<and> error_message row' = diag \<and>
           (if max_retries job \<le> attempts job + 1
            then state row' = DEAD \<and> next_retry_at row' = None
            else state row' = FAILED \<and>
                 next_retry_at row' =
                   Some (nat (int t2 + b ^ nat (attempts job + 1) * 1000000))) \<and>
           (state row' = DEAD \<longrightarrow> max_retries row' \<le> attempts row') \<and>
           (state row' = FAILED \<longrightarrow>
              next_retry_at row' \<noteq> None \<and> 0 < attempts row' \<and> attempts row' < max_retries row')"
proof -
  from acquire_job_Some [OF assms(1,2)] obtain row where
    s: "select_next tie (isoformat now) (stale_threshold sql_now) rows = Some row" and
    j: "job = row_to_job (lock_row w now row)"
    by blast
  from s have m: "row \<in> set rows" using select_next_Some by blast
  have at: "attempts job = attempts row" and mr: "max_retries job = max_retries row"
    and ji: "job_id job = job_id row"
    by (simp_all add: j row_to_job_def lock_row_def)
  note f = failed_run [OF assms(1) s, of t2 b fd str_e w diag t1 t3 t4 t5 t6]
  show ?thesis
  proof (cases "max_retries row \<le> attempts row + 1")
    case True
    with f assms(3,4) m show ?thesis
      by (intro bexI [of _ row] exI [of _ "row\<lparr>attempts := attempts row + 1, error_message := diag,
                               updated_at := t3, state := DEAD, next_retry_at := None,
                               locked_by := None, locked_at := None\<rparr>"])
         (simp_all add: at mr ji)
  next
    case False
    with f assms(3,4) m show ?thesis
      by (intro bexI [of _ row] exI [of _ "row\<lparr>attempts := attempts row + 1, error_message := diag,
                               updated_at := t3, state := FAILED,
                               next_retry_at :=
                                 Some (nat (int t2 + b ^ nat (attempts row + 1) * 1000000)),
                               locked_by := None, locked_at := None\<rparr>"])
         (simp_all add: at mr ji)
  qed
qed

text \<open>
  C7 (as amended). For a job stored FAILED with new \<open>attempts = k\<close>, \<open>next_retry_at\<close> is the
  clock reading \<open>t2\<close> taken when the retry is scheduled plus \<open>backoff_base ^ k\<close> seconds, and
  \<open>updated_at\<close> is the later reading \<open>t3\<close> that \<open>update_job\<close> takes. Their difference is
  \<open>backoff_base ^ k\<close> seconds less the time between the two readings (in microseconds).
\<close>

theorem retry_delay:
  assumes "pk rows" and "acquire_job tie w now sql_now rows = (Some job, rows1)"
    and "0 \<le> attempts job" and "attempts job + 1 < max_retries job"
    and "0 \<le> int t2 + b ^ nat (attempts job + 1) * 1000000"
    and "int t2 + b ^ nat (attempts job + 1) * 1000000 < int MAXUS"
  shows "\<exists>row\<in>set rows. \<exists>row' t.
           process_next_job fd b str_e tie w now sql_now (False, diag) (t1, t2, t3) (t4, t5, t6)
               rows =
             Inr (map (\<lambda>r. if r = row then row' else r) rows) \<and>
           job_id row' = job_id job \<and> state row' = FAILED \<and>
           attempts row' = attempts job + 1 \<and>
           next_retry_at row' = Some t \<and> updated_at row' = t3 \<and>
           int t = int t2 + b ^ nat (attempts row') * 1000000 \<and>
           int t - int (updated_at row') =
             b ^ nat (attempts row') * 1000000 - (int t3 - int t2)"
proof -
  from acquire_job_Some [OF assms(1,2)] obtain row where
    s: "select_next tie (isoformat now) (stale_threshold sql_now) rows = Some row" and
    j: "job = row_to_job (lock_row w now row)"
    by blast
  from s have m: "row \<in> set rows" using select_next_Some by blast
  have at: "attempts job = attempts row" and mr: "max_retries job = max_retries row"
    and ji: "job_id job = job_id row"
    by (simp_all add: j row_to_job_def lock_row_def)
  let ?t = "nat (int t2 + b ^ nat (attempts row + 1) * 1000000)"
  let ?row = "row\<lparr>attempts := attempts row + 1, error_message := diag,
                   updated_at := t3, state := FAILED, next_retry_at := Some ?t,
                   locked_by := None, locked_at := None\<rparr>"
  have "process_next_job fd b str_e tie w now sql_now (False, diag) (t1, t2, t3) (t4, t5, t6)
          rows = Inr (map (\<lambda>r. if r = row then ?row else r) rows)"
    using failed_run [OF assms(1) s, of t2 b fd str_e w diag t1 t3 t4 t5 t6] assms(3-6)
    by (simp add: at mr)
  moreover have "int ?t = int t2 + b ^ nat (attempts row + 1) * 1000000"
    using assms(5) by (simp add: at)
  ultimately show ?thesis using m
    by (intro bexI [of _ row] exI [of _ ?row] exI [of _ ?t]) (simp_all add: at ji)
qed

theorem retry_delay_witness:
  "pk [row_F] \<and>
   (\<exists>row' t. process_next_job no_float_delay 2 (\<lambda>e. []) 0 ''worker-1'' noon noon
               (False, Some ''Exit code 2'')
               (noon + 1000, noon + 1100, noon + 1250) (noon, noon, noon) [row_F] = Inr [row'] \<and>
            next_retry_at row' = Some t \<and>
            int t - int (updated_at row') = 2 ^ 2 * 1000000 - (int (noon + 1250) - int (noon + 1100)))"
proof -
  have p: "pk [row_F]" by (simp add: pk_def)
  have a: "attempts (row_to_job (lock_row ''worker-1'' noon row_F)) = 1"
    and mr: "max_retries (row_to_job (lock_row ''worker-1'' noon row_F)) = 3"
    by (simp_all add: row_to_job_def lock_row_def row_F_def)
  have n: "0 \<le> attempts (row_to_job (lock_row ''worker-1'' noon row_F))" by (simp add: a)
  have l: "attempts (row_to_job (lock_row ''worker-1'' noon row_F)) + 1
             < max_retries (row_to_job (lock_row ''worker-1'' noon row_F))"
    by (simp add: a mr)
  have r1: "0 \<le> int (noon + 1100) +
                2 ^ nat (attempts (row_to_job (lock_row ''worker-1'' noon row_F)) + 1) * 1000000"
    unfolding a using in_range_noon by simp
  have r2: "int (noon + 1100) +
                2 ^ nat (attempts (row_to_job (lock_row ''worker-1'' noon row_F)) + 1) * 1000000
             < int MAXUS"
    unfolding a using in_range_noon by simp
  from retry_delay [OF p acquire_row_F [of 0] n l r1 r2, of no_float_delay "\<lambda>e. []"
      "Some ''Exit code 2''" "noon + 1000" "noon + 1250" noon noon noon]
  show ?thesis using p by (auto simp: a)
qed

lemma process_row_F_failed:
  "process_next_job no_float_delay 2 (\<lambda>e. []) 0 ''worker-1'' noon noon
       (False, Some ''Exit code 2'')
       (noon + 1000, noon + 1100, noon + 1250) (noon, noon, noon) [row_F] =
     Inr [row_F\<lparr>attempts := 2, error_message := Some ''Exit code 2'', updated_at := noon + 1250,
                state := FAILED, next_retry_at := Some (noon + 1100 + 4000000)\<rparr>]"
proof -
  have p: "pk [row_F]" by (simp add: pk_def)
  have a: "attempts row_F = 1" and mr: "max_retries row_F = 3"
    by (simp_all add: row_F_def)
  have e: "nat (int (noon + 1100) + 2 ^ nat (1 + 1) * 1000000) = noon + 1100 + 4000000"
    by (simp add: nat_add_distrib)
  have "process_next_job no_float_delay 2 (\<lambda>e. []) 0 ''worker-1'' noon noon
       (False, Some ''Exit code 2'')
       (noon + 1000, noon + 1100, noon + 1250) (noon, noon, noon) [row_F] =
     Inr [row_F\<lparr>attempts := 2, error_message := Some ''Exit code 2'', updated_at := noon + 1250,
                state := FAILED, next_retry_at := Some (noon + 1100 + 4000000),
                locked_by := None, locked_at := None\<rparr>]"
    using failed_run [OF p select_row_F, of "noon + 1100" 2 no_float_delay "\<lambda>e. []" 0
        "''worker-1''" "Some ''Exit code 2''" "noon + 1000" "noon + 1250" noon noon noon]
      in_range_noon
    by (simp add: a mr e)
  then show ?thesis by (simp add: row_F_def)
qed

theorem retry_delay_counterexample:
  "process_next_job no_float_delay 2 (\<lambda>e. []) 0 ''worker-1'' noon noon
       (False, Some ''Exit code 2'')
       (noon + 1000, noon + 1100, noon + 1250) (noon, noon, noon) [row_F] =
     Inr [row_F\<lparr>attempts := 2, error_message := Some ''Exit code 2'', updated_at := noon + 1250,
                state := FAILED, next_retry_at := Some (noon + 1100 + 4000000)\<rparr>] \<and>
   max_retries row_F = 3 \<and>
   int (noon + 1100 + 4000000) - int (noon + 1250) \<noteq> 2 ^ 2 * 1000000"
  by (simp add: process_row_F_failed) (simp add: row_F_def)

text \<open>
  C6. A failed run with \<open>backoff_base = 600000\<close> of job F, which has failed once before
  (\<open>attempts = 1\<close>, \<open>max_retries = 3\<close>). The specification requires \<open>attempts\<close> incremented
  exactly once, and the job stored FAILED with a \<open>next_retry_at\<close>, since \<open>2 < 3\<close>. \<open>_handle_failure\<close>
  increments \<open>attempts\<close> to 2 and then raises \<open>OverflowError\<close>, because the retry instant,
  \<open>600000 ^ 2\<close> seconds ahead, is no datetime; the handler of \<open>_process_next_job\<close> calls
  \<open>_handle_failure\<close> again on the same object, which increments \<open>attempts\<close> to 3 and stores
  the job DEAD, with the text of the exception as its \<open>error_message\<close>.
\<close>

theorem overflow_counts_twice:
  "process_next_job fd 600000 str_e tie ''worker-1'' noon noon (False, Some ''Exit code 2'')
       (noon + 1000, noon + 1100, noon + 1250) (noon + 1300, noon + 1400, noon + 1500) [row_F] =
     Inr [row_F\<lparr>attempts := 3, error_message := Some (str_e OverflowError),
                updated_at := noon + 1500, state := DEAD, next_retry_at := None\<rparr>]"
proof -
  have a: "acquire_job tie ''worker-1'' noon noon [row_F] =
     (Some (row_to_job (lock_row ''worker-1'' noon row_F)), [lock_row ''worker-1'' noon row_F])"
    by (rule acquire_row_F)
  let ?job = "row_to_job (lock_row ''worker-1'' noon row_F)"
  let ?job1 = "?job\<lparr>attempts := 2, error_message := Some ''Exit code 2'', updated_at := noon + 1000\<rparr>"
  have at: "attempts ?job = 1" "max_retries ?job = 3"
    by (simp_all add: row_to_job_def lock_row_def row_F_def)
  have o: "datetime_add (noon + 1100) 360000000000000000 = Inl OverflowError"
    by (simp add: datetime_add_def noon_def MAXUS_def)
  have h1: "handle_failure fd 600000 (noon + 1000) (noon + 1100) (noon + 1250) ?job
              (Some ''Exit code 2'') [lock_row ''worker-1'' noon row_F] = Inl (OverflowError, ?job1)"
    by (simp add: handle_failure_def Let_def at delay_microseconds_def o)
  have h2: "handle_failure fd 600000 (noon + 1300) (noon + 1400) (noon + 1500) ?job1
              (Some (str_e OverflowError)) [lock_row ''worker-1'' noon row_F] =
            Inr [row_F\<lparr>attempts := 3, error_message := Some (str_e OverflowError),
                updated_at := noon + 1500, state := DEAD, next_retry_at := None\<rparr>]"
    by (simp add: handle_failure_def Let_def at update_job_def write_job_def lock_row_def
        row_to_job_def) (simp add: row_F_def)
  show ?thesis
    by (simp add: process_next_job_def a h1 h2)
qed

section \<open>Requeue from the dead-letter queue\<close>

lemma get_job_None: "i \<notin> job_id ` set rows \<Longrightarrow> get_job i rows = None"
  by (auto simp: get_job_def find_None_iff)

text \<open>
  C9. \<open>dlq retry\<close> on the id of a DEAD job stores it with \<open>state = PENDING\<close>,
  \<open>attempts = 0\<close>, \<open>error_message\<close> and \<open>next_retry_at\<close> null (and, through \<open>update_job\<close>, a new
  \<open>updated_at\<close> and no lease), every other row as before. On the id of a job in any other
  state it prints an error that names that state and leaves the table as it is; on an
  id that no row has it prints the not-found error.
\<close>

theorem retry_outcomes:
  assumes "pk rows"
  shows "(\<forall>r\<in>set rows. job_id r = i \<and> state r = DEAD \<longrightarrow>
            retry t i rows =
              (Out (''[OK] Job '' @ quoted i @ '' has been requeued for retry''),
               map (\<lambda>x. if x = r
                         then r\<lparr>state := PENDING, attempts := 0, error_message := None,
                                next_retry_at := None, updated_at := t,
                                locked_by := None, locked_at := None\<rparr>
                         else x) rows)) \<and>
         (\<forall>r\<in>set rows. job_id r = i \<and> state r \<noteq> DEAD \<longrightarrow>
            retry t i rows =
              (Err (''Error: Job '' @ quoted i @ '' is not in Dead Letter Queue (state: '' @
                    state_value (state r) @ '')''), rows)) \<and>
         (i \<notin> job_id ` set rows \<longrightarrow>
            retry t i rows = (Err (''Error: Job '' @ quoted i @ '' not found''), rows))"
proof (intro conjI ballI impI)
  fix r assume m: "r \<in> set rows" and h: "job_id r = i \<and> state r = DEAD"
  let ?job = "(row_to_job r)\<lparr>state := PENDING, attempts := 0, error_message := None,
                              next_retry_at := None\<rparr>"
  have g: "get_job i rows = Some (row_to_job r)"
    using get_job_pk [OF assms m] h by simp
  have i: "job_id ?job = job_id r" by simp
  have w: "write_job t ?job r =
           r\<lparr>state := PENDING, attempts := 0, error_message := None, next_retry_at := None,
             updated_at := t, locked_by := None, locked_at := None\<rparr>"
    by (simp add: write_job_def row_to_job_def)
  have s: "state (row_to_job r) = DEAD" using h by (simp add: row_to_job_def)
  show "retry t i rows =
              (Out (''[OK] Job '' @ quoted i @ '' has been requeued for retry''),
               map (\<lambda>x. if x = r
                         then r\<lparr>state := PENDING, attempts := 0, error_message := None,
                                next_retry_at := None, updated_at := t,
                                locked_by := None, locked_at := None\<rparr>
                         else x) rows)"
    by (simp add: retry_def g s update_job_pk [OF assms m i] w)
next
  fix r assume m: "r \<in> set rows" and h: "job_id r = i \<and> state r \<noteq> DEAD"
  have g: "get_job i rows = Some (row_to_job r)"
    using get_job_pk [OF assms m] h by simp
  have s: "state (row_to_job r) = state r" by (simp add: row_to_job_def)
  show "retry t i rows =
              (Err (''Error: Job '' @ quoted i @ '' is not in Dead Letter Queue (state: '' @
                    state_value (state r) @ '')''), rows)"
    using h by (simp add: retry_def g s)
next
  assume "i \<notin> job_id ` set rows"
  then show "retry t i rows = (Err (''Error: Job '' @ quoted i @ '' not found''), rows)"
    by (simp add: retry_def get_job_None)
qed

theorem retry_outcomes_witness:
  "pk [row_D, row_A] \<and>
   retry noon ''D'' [row_D, row_A] =
     (Out (''[OK] Job '' @ quoted ''D'' @ '' has been requeued for retry''),
      [row_D\<lparr>state := PENDING, attempts := 0, error_message := None, next_retry_at := None,
             updated_at := noon, locked_by := None, locked_at := None\<rparr>, row_A]) \<and>
   retry noon ''A'' [row_D, row_A] =
     (Err (''Error: Job '' @ quoted ''A'' @ '' is not in Dead Letter Queue (state: pending)''),
      [row_D, row_A]) \<and>
   retry noon ''Z'' [row_D, row_A] =
     (Err (''Error: Job '' @ quoted ''Z'' @ '' not found''), [row_D, row_A])"
proof -
  have p: "pk [row_D, row_A]" by (simp add: pk_def row_D_def row_A_def)
  have d: "job_id row_D = ''D''" "state row_D = DEAD" "row_D \<noteq> row_A"
    by (auto simp: row_D_def row_A_def)
  have a: "job_id row_A = ''A''" "state row_A = PENDING"
    by (simp_all add: row_A_def)
  have z: "''Z'' \<notin> job_id ` set [row_D, row_A]" by (simp add: d a)
  from retry_outcomes [OF p, of "''D''" noon] d
  have 1: "retry noon ''D'' [row_D, row_A] =
     (Out (''[OK] Job '' @ quoted ''D'' @ '' has been requeued for retry''),
      [row_D\<lparr>state := PENDING, attempts := 0, error_message := None, next_retry_at := None,
             updated_at := noon, locked_by := None, locked_at := None\<rparr>, row_A])"
    by auto
  from retry_outcomes [OF p, of "''A''" noon] a
  have 2: "retry noon ''A'' [row_D, row_A] =
     (Err (''Error: Job '' @ quoted ''A'' @ '' is not in Dead Letter Queue (state: pending)''),
      [row_D, row_A])"
    by auto
  from retry_outcomes [OF p, of "''Z''" noon] z
  have 3: "retry noon ''Z'' [row_D, row_A] =
     (Err (''Error: Job '' @ quoted ''Z'' @ '' not found''), [row_D, row_A])"
    by blast
  from p 1 2 3 show ?thesis by blast
qed

section \<open>Admission\<close>




section \<open>Statistics\<close>

lemma fold_upd_groups:
  "fold (\<lambda>(s, c) stats. stats(s \<mapsto> c)) (map (\<lambda>s. (s, f s)) ks) m k =
     (if k \<in> set ks then Some (f k) else m k)"
  by (induction ks arbitrary: m) auto

text \<open>
  C10. The dictionary that \<open>get_stats\<close> returns has a key exactly for the state texts that
  some row carries, and the value at such a key is the number of rows in that state; a
  state without rows has no entry (it is not mapped to 0).
\<close>

theorem get_stats_counts:
  "get_stats rows k =
     (if k \<in> set (map (\<lambda>r. state_value (state r)) rows)
      then Some (int (length (filter (\<lambda>r. state_value (state r) = k) rows)))
      else None)"
  unfolding get_stats_def state_groups_def fold_upd_groups by simp

theorem get_stats_counts_witness:
  "get_stats [row_A, row_b, row_D] ''pending'' = Some 2 \<and>
   get_stats [row_A, row_b, row_D] ''dead'' = Some 1 \<and>
   get_stats [row_A, row_b, row_D] ''completed'' = None"
  using get_stats_counts [of "[row_A, row_b, row_D]" "''pending''"]
    get_stats_counts [of "[row_A, row_b, row_D]" "''dead''"]
    get_stats_counts [of "[row_A, row_b, row_D]" "''completed''"]
  by (simp add: row_A_def row_b_def row_D_def)

end
